theory Spec2Isabelle
  imports Complex_Main
begin

section \<open>Data model of RadarAnimation.py\<close>

text \<open>
  The exceptions the modelled methods can raise: reading an attribute that
  \<open>__init__\<close> never assigned, indexing a list out of range, reading a missing
  dictionary key, and \<open>int()\<close> on a character that is not a decimal digit.
\<close>

datatype py_error = AttributeError | IndexError | KeyError | ValueError

text \<open>
  A scan step is one of the dictionaries of the pattern tables. The keys
  \<open>label\<close>, \<open>angle\<close>, \<open>speed\<close> and \<open>cone_width\<close> are present in every
  dictionary the program builds; \<open>range\<close>, \<open>range_z\<close> and \<open>range_v\<close> are
  optional keys. Python floats and ints are idealised as exact reals.
\<close>

record scan_step =
  step_label :: string
  step_angle :: string
  step_speed :: real
  step_cone_width :: real
  step_range :: "real option"
  step_range_z :: "real option"
  step_range_v :: "real option"

text \<open>
  Elevation texts end in the degree sign U+00B0. A Python string is a sequence
  of code points, and this one is below 256, so it is the single character
  \<open>0xB0\<close>.
\<close>

definition deg :: "string \<Rightarrow> string" where
  "deg t = t @ [CHR 0xB0]"

text \<open>A dictionary literal with the key \<open>range\<close>.\<close>

definition cone1 :: "string \<Rightarrow> string \<Rightarrow> real \<Rightarrow> real \<Rightarrow> real \<Rightarrow> scan_step" where
  "cone1 l a v w r =
     \<lparr>step_label = l, step_angle = a, step_speed = v, step_cone_width = w,
      step_range = Some r, step_range_z = None, step_range_v = None\<rparr>"

text \<open>A dictionary literal with the keys \<open>range_z\<close> and \<open>range_v\<close>.\<close>

definition cone2 :: "string \<Rightarrow> string \<Rightarrow> real \<Rightarrow> real \<Rightarrow> real \<Rightarrow> real \<Rightarrow> scan_step" where
  "cone2 l a v w rz rv =
     \<lparr>step_label = l, step_angle = a, step_speed = v, step_cone_width = w,
      step_range = None, step_range_z = Some rz, step_range_v = Some rv\<rparr>"

text \<open>
  A polygon of the canvas, kept as the data it is computed from: fill colour,
  radius, centre direction and full width in degrees. The vertex coordinates
  (sine and cosine of the edges) are not modelled.
\<close>

record cone =
  cone_fill :: string
  cone_radius :: real
  cone_centre :: real
  cone_width :: real

text \<open>
  The attributes of \<open>RadarApp\<close>. Attributes that \<open>__init__\<close> does not assign
  are options (\<open>None\<close>: not yet assigned). The widgets are kept as the
  configuration the methods write to them; \<open>stdout\<close> collects the printed
  lines and \<open>after_pending\<close> counts the callbacks queued by \<open>root.after\<close>.
\<close>

record radar_app =
  angle :: real
  running :: bool
  vcp_selected :: bool
  speed_multiplier :: int
  fast_mode :: int
  sweep_progress :: real
  pattern_step_index :: nat
  pattern_sequence :: "scan_step list"
  sweep_cone :: "cone list"
  sweep_speed :: "real option"
  cone_angle_width :: "real option"
  current_label :: "string option"
  sweep_radius :: "real option"
  selected_vcp :: "string option"
  sails_var :: string
  mrle_var :: string
  vcp_title_label :: string
  toggle_button_text :: string
  toggle_button_enabled :: bool
  fast_button :: int
  sails_dropdown_enabled :: bool
  sails_menu :: "string list"
  mrle_dropdown_enabled :: bool
  z_label :: string
  angle_label :: string
  stdout :: "string list"
  after_pending :: nat

text \<open>
  A method call either returns or raises; in both cases the object keeps the
  assignments made so far.
\<close>

datatype outcome = Done radar_app | Raised py_error radar_app

fun and_then :: "outcome \<Rightarrow> (radar_app \<Rightarrow> outcome) \<Rightarrow> outcome" where
  "and_then (Done s) f = f s"
| "and_then (Raised e s) f = Raised e s"

fun state_of :: "outcome \<Rightarrow> radar_app" where
  "state_of (Done s) = s"
| "state_of (Raised e s) = s"

fun returns :: "outcome \<Rightarrow> bool" where
  "returns (Done s) = True"
| "returns (Raised e s) = False"

text \<open>The state \<open>__init__\<close> leaves.\<close>

definition init_app :: radar_app where
  "init_app =
     \<lparr>angle = 90, running = False, vcp_selected = False, speed_multiplier = 1,
      fast_mode = 1, sweep_progress = 0, pattern_step_index = 0,
      pattern_sequence = [], sweep_cone = [], sweep_speed = None,
      cone_angle_width = None, current_label = None, sweep_radius = None,
      selected_vcp = None, sails_var = ''None'', mrle_var = ''None'',
      vcp_title_label = ''VCP'', toggle_button_text = ''Run'',
      toggle_button_enabled = False, fast_button = 1,
      sails_dropdown_enabled = True,
      sails_menu = [''None'', ''SAILS 1'', ''SAILS 2'', ''SAILS 3''],
      mrle_dropdown_enabled = True, z_label = ''Z'', angle_label = deg ''0.5'',
      stdout = [], after_pending = 0\<rparr>"

section \<open>Pattern tables\<close>

definition vcp_212 :: "scan_step list" where
  "vcp_212 =
    [cone1 ''Z'' (deg ''0.5'') (-0.35) 8 250,
     cone1 ''V'' (deg ''0.5'') (-0.29) 8 74,
     cone1 ''Z'' (deg ''0.9'') (-0.35) 8 250,
     cone1 ''V'' (deg ''0.9'') (-0.29) 8 74,
     cone1 ''Z'' (deg ''1.3'') (-0.38) 8 231,
     cone1 ''V'' (deg ''1.3'') (-0.29) 8 74,
     cone2 ''Z/V'' (deg ''1.8'') (-0.43) 8 208 80,
     cone2 ''Z/V'' (deg ''2.4'') (-0.46) 8 181 80,
     cone2 ''Z/V'' (deg ''3.1'') (-0.46) 8 158 80,
     cone2 ''Z/V'' (deg ''4.0'') (-0.46) 8 134 80,
     cone2 ''Z/V'' (deg ''5.1'') (-0.46) 8 113 80,
     cone2 ''Z/V'' (deg ''6.4'') (-0.46) 8 94 80,
     cone1 ''V'' (deg ''8.0'') (-0.5) 8 74,
     cone1 ''V'' (deg ''10.0'') (-0.5) 8 68,
     cone1 ''V'' (deg ''12.5'') (-0.5) 8 63,
     cone1 ''V'' (deg ''15.6'') (-0.5) 8 63,
     cone1 ''V'' (deg ''19.5'') (-0.5) 8 63]"

definition vcp_35 :: "scan_step list" where
  "vcp_35 =
    [cone1 ''Z'' (deg ''0.5'') (-0.08) 8 250,
     cone1 ''V'' (deg ''0.5'') (-0.26) 8 80,
     cone1 ''Z'' (deg ''0.9'') (-0.08) 8 250,
     cone1 ''V'' (deg ''0.9'') (-0.26) 8 80,
     cone1 ''Z'' (deg ''1.3'') (-0.09) 8 231,
     cone1 ''V'' (deg ''1.3'') (-0.26) 8 80,
     cone2 ''Z/V'' (deg ''1.8'') (-0.26) 8 208 80,
     cone2 ''Z/V'' (deg ''2.4'') (-0.30) 8 181 80,
     cone2 ''Z/V'' (deg ''3.1'') (-0.29) 8 158 80,
     cone2 ''Z/V'' (deg ''4.0'') (-0.30) 8 134 80,
     cone2 ''Z/V'' (deg ''5.1'') (-0.30) 8 134 80,
     cone2 ''Z/V'' (deg ''6.4'') (-0.30) 8 134 80]"

definition vcp_215 :: "scan_step list" where
  "vcp_215 =
    [cone1 ''Z'' (deg ''0.5'') (-0.19) 8 250,
     cone1 ''V'' (deg ''0.5'') (-0.29) 8 74,
     cone1 ''Z'' (deg ''0.9'') (-0.22) 8 250,
     cone1 ''V'' (deg ''0.9'') (-0.29) 8 74,
     cone1 ''Z'' (deg ''1.3'') (-0.26) 8 231,
     cone1 ''V'' (deg ''1.3'') (-0.29) 8 74,
     cone2 ''Z/V'' (deg ''1.8'') (-0.29) 8 208 80,
     cone2 ''Z/V'' (deg ''2.4'') (-0.33) 8 181 80,
     cone2 ''Z/V'' (deg ''3.1'') (-0.33) 8 158 80,
     cone2 ''Z/V'' (deg ''4.0'') (-0.33) 8 134 80,
     cone2 ''Z/V'' (deg ''5.1'') (-0.33) 8 134 80,
     cone2 ''Z/V'' (deg ''6.4'') (-0.33) 8 134 80,
     cone1 ''V'' (deg ''8.0'') (-0.43) 8 63,
     cone1 ''V'' (deg ''10.0'') (-0.43) 8 63,
     cone1 ''V'' (deg ''12.0'') (-0.43) 8 63,
     cone1 ''V'' (deg ''14.0'') (-0.43) 8 63,
     cone1 ''V'' (deg ''16.7'') (-0.43) 8 63,
     cone1 ''V'' (deg ''19.5'') (-0.43) 8 63]"

definition vcp_12 :: "scan_step list" where
  "vcp_12 =
    [cone1 ''Z'' (deg ''0.5'') (-0.35) 8 250,
     cone1 ''V'' (deg ''0.5'') (-0.40) 8 80,
     cone1 ''Z'' (deg ''0.9'') (-0.35) 8 250,
     cone1 ''V'' (deg ''0.9'') (-0.40) 8 80,
     cone1 ''Z'' (deg ''1.3'') (-0.38) 8 231,
     cone1 ''V'' (deg ''1.3'') (-0.40) 8 80,
     cone2 ''Z/V'' (deg ''1.8'') (-0.43) 8 208 80,
     cone2 ''Z/V'' (deg ''2.4'') (-0.43) 8 181 80,
     cone2 ''Z/V'' (deg ''3.1'') (-0.43) 8 158 80,
     cone2 ''Z/V'' (deg ''4.0'') (-0.46) 8 134 80,
     cone2 ''Z/V'' (deg ''5.1'') (-0.43) 8 134 80,
     cone2 ''Z/V'' (deg ''6.4'') (-0.43) 8 134 80,
     cone1 ''V'' (deg ''8.0'') (-0.46) 8 74,
     cone1 ''V'' (deg ''10.0'') (-0.46) 8 68,
     cone1 ''V'' (deg ''12.5'') (-0.46) 8 63,
     cone1 ''V'' (deg ''15.6'') (-0.46) 8 63,
     cone1 ''V'' (deg ''19.5'') (-0.46) 8 63]"

text \<open>The dictionary \<open>patterns\<close>, in the order of its literal.\<close>

definition patterns :: "(string \<times> scan_step list) list" where
  "patterns =
     [(''VCP 212'', vcp_212), (''VCP 35'', vcp_35),
      (''VCP 215'', vcp_215), (''VCP 12'', vcp_12)]"

text \<open>\<open>d.get(k, [])\<close> on a dictionary of lists.\<close>

definition get_or_empty :: "(string \<times> 'a list) list \<Rightarrow> string \<Rightarrow> 'a list" where
  "get_or_empty d k = (case map_of d k of None \<Rightarrow> [] | Some v \<Rightarrow> v)"

section \<open>Supplemental scan insertion\<close>

definition sails_scans :: "scan_step list" where
  "sails_scans =
    [cone1 ''Z'' (deg ''0.5'') (-0.5) 8 250,
     cone1 ''V'' (deg ''0.5'') (-0.5) 8 80]"

definition insert_points :: "(string \<times> string list) list" where
  "insert_points =
     [(''SAILS 1'', [deg ''3.1'']),
      (''SAILS 2'', [deg ''1.8'', deg ''6.4'']),
      (''SAILS 3'', [deg ''1.3'', deg ''4.0'', deg ''8.0''])]"

text \<open>The slice assignment \<open>pattern[k:k] = block\<close> for \<open>k \<le> len(pattern)\<close>.\<close>

definition insert_at :: "nat \<Rightarrow> 'a list \<Rightarrow> 'a list \<Rightarrow> 'a list" where
  "insert_at k block pattern = take k pattern @ block @ drop k pattern"

text \<open>
  The inner loop \<open>for i in reversed(range(len(pattern)))\<close>:
  \<open>sails_scan sails a pattern n\<close> runs the iterations \<open>i = n - 1, ..., 0\<close>.
  An iteration that inserts leaves the loop (\<open>break\<close>); a step of the right
  angle that neither branch accepts lets the scan go on.
\<close>

fun sails_scan :: "string \<Rightarrow> string \<Rightarrow> scan_step list \<Rightarrow> nat \<Rightarrow> scan_step list" where
  "sails_scan sails a pattern 0 = pattern"
| "sails_scan sails a pattern (Suc i) =
     (if step_angle (pattern ! i) = a then
        (if a = deg ''1.3'' \<and> sails = ''SAILS 3'' \<and> step_label (pattern ! i) = ''V''
         then insert_at (i + 1) sails_scans pattern
         else if a \<noteq> deg ''1.3'' \<or> sails \<noteq> ''SAILS 3''
         then insert_at (i + 1) sails_scans pattern
         else sails_scan sails a pattern i)
      else sails_scan sails a pattern i)"

text \<open>The outer loop \<open>for angle in insert_points.get(sails, [])\<close>.\<close>

definition apply_sails :: "string \<Rightarrow> scan_step list \<Rightarrow> scan_step list" where
  "apply_sails sails pattern =
     foldl (\<lambda>p a. sails_scan sails a p (length p)) pattern (get_or_empty insert_points sails)"

text \<open>
  \<open>int(mrle[-1])\<close>: the last character of the selection, read as a decimal
  digit. An empty string has no last character.
\<close>

definition digit_value :: "char \<Rightarrow> int option" where
  "digit_value c =
     (let n = (of_char c :: nat)
      in if 48 \<le> n \<and> n \<le> 57 then Some (int n - 48) else None)"

definition mrle_count :: "string \<Rightarrow> py_error + int" where
  "mrle_count mrle =
     (if mrle = [] then Inl IndexError
      else case digit_value (last mrle) of
             None \<Rightarrow> Inl ValueError
           | Some n \<Rightarrow> Inr n)"

definition mrle_scans :: "int \<Rightarrow> scan_step list" where
  "mrle_scans count =
     [cone1 ''Z'' (deg ''0.5'') (-0.35) 8 250,
      cone1 ''V'' (deg ''0.5'') (-0.40) 8 80,
      cone1 ''Z'' (deg ''0.9'') (-0.35) 8 250,
      cone1 ''V'' (deg ''0.9'') (-0.40) 8 80]
     @ (if count \<ge> 3
        then [cone1 ''Z'' (deg ''1.3'') (-0.38) 8 231,
              cone1 ''V'' (deg ''1.3'') (-0.40) 8 80]
        else [])
     @ (if count = 4
        then [cone2 ''Z/V'' (deg ''1.8'') (-0.43) 8 208 80]
        else [])"

text \<open>
  The list comprehension of the indices whose step has the given angle, and
  the insertion after the last of them, if there is one.
\<close>

definition angle_indices :: "string \<Rightarrow> scan_step list \<Rightarrow> nat list" where
  "angle_indices a pattern =
     filter (\<lambda>i. step_angle (pattern ! i) = a) [0..<length pattern]"

definition apply_mrle :: "int \<Rightarrow> scan_step list \<Rightarrow> scan_step list" where
  "apply_mrle count pattern =
     (let points = angle_indices (deg ''5.1'') pattern
      in if points \<noteq> []
         then insert_at (last points + 1) (mrle_scans count) pattern
         else pattern)"

text \<open>
  \<open>build_pattern_sequence\<close>. The attribute \<open>pattern_sequence\<close> is emptied
  first and assigned the built list on the last line, so a call that raises
  leaves it empty.
\<close>

definition build_pattern_sequence :: "radar_app \<Rightarrow> outcome" where
  "build_pattern_sequence s =
     (let s0 = s\<lparr>pattern_sequence := []\<rparr> in
      case selected_vcp s0 of
        None \<Rightarrow> Raised AttributeError s0
      | Some vcp \<Rightarrow>
         (let pattern = get_or_empty patterns vcp in
          if pattern = [] then Done (s0\<lparr>pattern_sequence := []\<rparr>)
          else
           (let sails = sails_var s0;
                pattern1 = (if sails \<noteq> ''None'' then apply_sails sails pattern
                            else pattern);
                mrle = mrle_var s0
            in if mrle \<noteq> ''None'' \<and> vcp \<in> set [''VCP 212'', ''VCP 12'']
               then (case mrle_count mrle of
                       Inl e \<Rightarrow> Raised e s0
                     | Inr count \<Rightarrow>
                         Done (s0\<lparr>pattern_sequence := apply_mrle count pattern1\<rparr>))
               else Done (s0\<lparr>pattern_sequence := pattern1\<rparr>))))"

section \<open>The sweep state machine\<close>

definition label_colors :: "(string \<times> string) list" where
  "label_colors = [(''Z'', ''#7394BA''), (''V'', ''#D39494''), (''Z/V'', ''#805C92'')]"

text \<open>
  \<open>draw_sweep_cone\<close> deletes the old polygons and draws one cone, or for a
  \<open>Z/V\<close> step two cones 4 degrees either side of the sweep angle, at the
  ranges of the step at \<open>pattern_step_index\<close>.
\<close>

definition draw_sweep_cone :: "radar_app \<Rightarrow> outcome" where
  "draw_sweep_cone s =
     (let s1 = s\<lparr>sweep_cone := []\<rparr> in
      case cone_angle_width s1 of
        None \<Rightarrow> Raised AttributeError s1
      | Some w \<Rightarrow>
         (case current_label s1 of
            None \<Rightarrow> Raised AttributeError s1
          | Some l \<Rightarrow>
             if l = ''Z/V'' then
               (if pattern_step_index s1 < length (pattern_sequence s1) then
                  (let pattern = pattern_sequence s1 ! pattern_step_index s1 in
                   case step_range_z pattern of
                     None \<Rightarrow> Raised KeyError s1
                   | Some rz \<Rightarrow>
                      (case step_range_v pattern of
                         None \<Rightarrow> Raised KeyError s1
                       | Some rv \<Rightarrow>
                          Done (s1\<lparr>sweep_cone :=
                            [\<lparr>cone_fill = ''#7394BA'', cone_radius = rz,
                              cone_centre = angle s1 - 4, cone_width = w\<rparr>,
                             \<lparr>cone_fill = ''#D39494'', cone_radius = rv,
                              cone_centre = angle s1 + 4, cone_width = w\<rparr>]\<rparr>)))
                else Raised IndexError s1)
             else
               (case sweep_radius s1 of
                  None \<Rightarrow> Raised AttributeError s1
                | Some r \<Rightarrow>
                   Done (s1\<lparr>sweep_cone :=
                     [\<lparr>cone_fill = (case map_of label_colors l of
                                       None \<Rightarrow> ''#888888'' | Some c \<Rightarrow> c),
                       cone_radius = r, cone_centre = angle s1, cone_width = w\<rparr>]\<rparr>))))"

text \<open>
  \<open>advance_pattern_step\<close> loads the parameters of the step at
  \<open>pattern_step_index\<close> (index 0 if the stored index is past the end) and puts
  the sweep back to 90 degrees.
\<close>

definition advance_pattern_step :: "radar_app \<Rightarrow> outcome" where
  "advance_pattern_step s =
     (if pattern_sequence s = [] then
        Done (s\<lparr>stdout := stdout s @ [''Pattern sequence is empty!''],
                running := False, toggle_button_text := ''Run''\<rparr>)
      else
       (let s1 = (if pattern_step_index s \<ge> length (pattern_sequence s)
                  then s\<lparr>pattern_step_index := 0\<rparr> else s);
            s2 = s1\<lparr>sweep_progress := 0, angle := 90\<rparr>;
            pattern = pattern_sequence s2 ! pattern_step_index s2;
            s3 = s2\<lparr>sweep_speed := Some (step_speed pattern * of_int (speed_multiplier s2)),
                     cone_angle_width := Some (step_cone_width pattern),
                     current_label := Some (step_label pattern)\<rparr>
        in if step_label pattern \<noteq> ''Z/V'' then
             (case step_range pattern of
                None \<Rightarrow> Raised KeyError s3
              | Some r \<Rightarrow>
                 Done (s3\<lparr>sweep_radius := Some r,
                          z_label := step_label pattern,
                          angle_label := step_angle pattern\<rparr>))
           else
             Done (s3\<lparr>sweep_radius :=
                        Some (max (case step_range_z pattern of None \<Rightarrow> 0 | Some r \<Rightarrow> r)
                                  (case step_range_v pattern of None \<Rightarrow> 0 | Some r \<Rightarrow> r)),
                      z_label := step_label pattern,
                      angle_label := step_angle pattern\<rparr>)))"

text \<open>
  \<open>animate\<close> is one tick. It queues the next tick with \<open>root.after\<close> unless
  the sequence has just been completed.
\<close>

definition animate :: "radar_app \<Rightarrow> outcome" where
  "animate s =
     (if \<not> running s then Done s
      else
       and_then (draw_sweep_cone s) (\<lambda>s1.
         case sweep_speed s1 of
           None \<Rightarrow> Raised AttributeError s1
         | Some v \<Rightarrow>
            (let s2 = s1\<lparr>sweep_progress := sweep_progress s1 + \<bar>v\<bar> * 5\<rparr>;
                 s3 = s2\<lparr>angle := angle s2 - \<bar>v\<bar> * 5\<rparr>
             in if angle s3 \<le> - 270 then
                  (let s4 = s3\<lparr>angle := 90,
                               pattern_step_index := pattern_step_index s3 + 1\<rparr>
                   in if pattern_step_index s4 \<ge> length (pattern_sequence s4) then
                        Done (s4\<lparr>pattern_step_index := 0, running := False,
                                 toggle_button_text := ''Run''\<rparr>)
                      else
                        and_then (advance_pattern_step s4) (\<lambda>s5.
                          Done (s5\<lparr>after_pending := after_pending s5 + 1\<rparr>)))
                else Done (s3\<lparr>after_pending := after_pending s3 + 1\<rparr>))))"

text \<open>The event loop runs one queued \<open>animate\<close> callback, if there is one.\<close>

definition fire_timer :: "radar_app \<Rightarrow> outcome" where
  "fire_timer s =
     (if after_pending s = 0 then Done s
      else animate (s\<lparr>after_pending := after_pending s - 1\<rparr>))"

fun fire_timers :: "nat \<Rightarrow> radar_app \<Rightarrow> outcome" where
  "fire_timers 0 s = Done s"
| "fire_timers (Suc n) s = and_then (fire_timer s) (fire_timers n)"

definition toggle_animation :: "radar_app \<Rightarrow> outcome" where
  "toggle_animation s =
     (if \<not> vcp_selected s then
        Done (s\<lparr>stdout := stdout s @ [''Please select a VCP pattern first.'']\<rparr>)
      else if \<not> running s then
        and_then (advance_pattern_step (s\<lparr>pattern_step_index := 0\<rparr>)) (\<lambda>s1.
          animate (s1\<lparr>angle := 90, running := True, toggle_button_text := ''Stop''\<rparr>))
      else Done (s\<lparr>running := False, toggle_button_text := ''Run''\<rparr>))"

definition speed_multiply :: "radar_app \<Rightarrow> outcome" where
  "speed_multiply s =
     (let s1 = s\<lparr>fast_mode := fast_mode s mod 4 + 1\<rparr>;
          s2 = s1\<lparr>speed_multiplier := 2 ^ nat (fast_mode s1 - 1)\<rparr>;
          s3 = s2\<lparr>fast_button := speed_multiplier s2\<rparr>
      in if pattern_sequence s3 \<noteq> [] then advance_pattern_step s3 else Done s3)"

text \<open>
  The option menus store the chosen text in \<open>sails_var\<close> or \<open>mrle_var\<close> and
  then call these handlers, so the handlers read the choice from the state.
\<close>

definition sails_selected :: "radar_app \<Rightarrow> outcome" where
  "sails_selected s =
     (if \<not> vcp_selected s then Done (s\<lparr>sails_var := ''None''\<rparr>)
      else
       and_then
        (if sails_var s \<noteq> ''None'' then
           Done (s\<lparr>mrle_var := ''None'', mrle_dropdown_enabled := False\<rparr>)
         else
           (case selected_vcp s of
              None \<Rightarrow> Raised AttributeError s
            | Some vcp \<Rightarrow>
               if vcp \<in> set [''VCP 212'', ''VCP 12'']
               then Done (s\<lparr>mrle_dropdown_enabled := True\<rparr>) else Done s))
        (\<lambda>s1. and_then
           (build_pattern_sequence
              (s1\<lparr>running := False, pattern_step_index := 0, angle := 90\<rparr>))
           advance_pattern_step))"

definition set_sails :: "string \<Rightarrow> radar_app \<Rightarrow> outcome" where
  "set_sails v s = sails_selected (s\<lparr>sails_var := v\<rparr>)"

definition mrle_selected :: "radar_app \<Rightarrow> outcome" where
  "mrle_selected s =
     (if \<not> vcp_selected s then Done (s\<lparr>mrle_var := ''None''\<rparr>)
      else
       (let s1 = (if mrle_var s \<noteq> ''None''
                  then s\<lparr>sails_var := ''None'', sails_dropdown_enabled := False\<rparr>
                  else s\<lparr>sails_dropdown_enabled := True\<rparr>)
        in and_then
            (build_pattern_sequence
               (s1\<lparr>running := False, pattern_step_index := 0, angle := 90\<rparr>))
            advance_pattern_step))"

definition set_vcp :: "string \<Rightarrow> radar_app \<Rightarrow> outcome" where
  "set_vcp vcp_name s =
     (let s1 = s\<lparr>running := False, vcp_selected := True,
                 toggle_button_text := ''Run'', toggle_button_enabled := True,
                 vcp_title_label := vcp_name, selected_vcp := Some vcp_name,
                 sails_var := ''None'', mrle_var := ''None''\<rparr>;
          s2 = (if vcp_name \<in> set [''VCP 212'', ''VCP 12'']
                then s1\<lparr>mrle_dropdown_enabled := True\<rparr>
                else s1\<lparr>mrle_dropdown_enabled := False, mrle_var := ''None''\<rparr>);
          s3 = s2\<lparr>sails_menu :=
                     (if vcp_name = ''VCP 35'' then [''None'', ''SAILS 1'']
                      else [''None'', ''SAILS 1'', ''SAILS 2'', ''SAILS 3'']),
                   sails_var := ''None'', sails_dropdown_enabled := True\<rparr>
      in and_then (build_pattern_sequence s3) (\<lambda>s4.
         and_then (advance_pattern_step s4) (\<lambda>s5.
           (let s6 = (if vcp_name \<in> set [''VCP 212'', ''VCP 12'']
                      then s5\<lparr>mrle_dropdown_enabled := True\<rparr>
                      else s5\<lparr>mrle_dropdown_enabled := False, mrle_var := ''None''\<rparr>)
            in and_then (build_pattern_sequence s6) advance_pattern_step))))"

section \<open>The anchor rule in the words of the specification\<close>

text \<open>
  The specification describes the insertion position without the loops: the
  last step, scanning from the end backward, whose elevation text equals the
  anchor (and, for one anchor, whose label is \<open>V\<close>). These definitions follow
  that wording; the theorems below compare them with the loops of
  \<open>build_pattern_sequence\<close>.
\<close>

fun find_last :: "('a \<Rightarrow> bool) \<Rightarrow> 'a list \<Rightarrow> nat option" where
  "find_last P [] = None"
| "find_last P (x # xs) =
     (case find_last P xs of
        Some i \<Rightarrow> Some (Suc i)
      | None \<Rightarrow> if P x then Some 0 else None)"

definition insert_after_last ::
  "('a \<Rightarrow> bool) \<Rightarrow> 'a list \<Rightarrow> 'a list \<Rightarrow> 'a list" where
  "insert_after_last P block pattern =
     (case find_last P pattern of
        None \<Rightarrow> pattern
      | Some i \<Rightarrow> take (Suc i) pattern @ block @ drop (Suc i) pattern)"

definition has_angle :: "string \<Rightarrow> scan_step \<Rightarrow> bool" where
  "has_angle a st = (step_angle st = a)"

definition has_angle_and_label :: "string \<Rightarrow> string \<Rightarrow> scan_step \<Rightarrow> bool" where
  "has_angle_and_label a l st = (step_angle st = a \<and> step_label st = l)"

text \<open>
  The specification's special case: the \<open>1.3\<close> anchor of \<open>SAILS 3\<close> matches
  only a step labelled \<open>V\<close>; every other anchor matches on the angle alone.
\<close>

definition anchor_match :: "string \<Rightarrow> string \<Rightarrow> scan_step \<Rightarrow> bool" where
  "anchor_match sails a st =
     (if a = deg ''1.3'' \<and> sails = ''SAILS 3''
      then has_angle_and_label a ''V'' st else has_angle a st)"

section \<open>Loaded steps, event sequences and reachable states\<close>

text \<open>
  The radius \<open>advance_pattern_step\<close> takes from a step, and the statement
  that the parameters of a step (speed times multiplier, cone width, radius,
  label) are the ones currently loaded.
\<close>

definition step_radius :: "scan_step \<Rightarrow> real option" where
  "step_radius st =
     (if step_label st \<noteq> ''Z/V'' then step_range st
      else Some (max (case step_range_z st of None \<Rightarrow> 0 | Some r \<Rightarrow> r)
                     (case step_range_v st of None \<Rightarrow> 0 | Some r \<Rightarrow> r)))"

definition step_loaded :: "scan_step \<Rightarrow> radar_app \<Rightarrow> bool" where
  "step_loaded st s =
     (sweep_speed s = Some (step_speed st * of_int (speed_multiplier s)) \<and>
      cone_angle_width s = Some (step_cone_width st) \<and>
      sweep_radius s = step_radius st \<and>
      current_label s = Some (step_label st))"

text \<open>
  The shape every step of the tables and of the insert blocks has: a single
  range, or for a \<open>Z/V\<close> step the two ranges.
\<close>

definition step_ok :: "scan_step \<Rightarrow> bool" where
  "step_ok st =
     (if step_label st = ''Z/V''
      then step_range_z st \<noteq> None \<and> step_range_v st \<noteq> None
      else step_range st \<noteq> None)"

text \<open>The event loop runs the handlers of a list of events in order.\<close>

fun run :: "(radar_app \<Rightarrow> outcome) list \<Rightarrow> radar_app \<Rightarrow> outcome" where
  "run [] s = Done s"
| "run (f # fs) s = and_then (f s) (run fs)"

text \<open>
  Event sequences from start-up, used as concrete inputs below. In
  \<open>first_tick\<close> a VCP is chosen and Run is pressed, which runs the first tick.
  In \<open>sweep_end\<close> the speed button is pressed three times (multiplier 8)
  before Run, and 24 more ticks bring the first sweep to its last position;
  \<open>second_step\<close> is one tick later. In \<open>unknown_vcp\<close> the chosen name has no
  entry in \<open>patterns\<close>, in \<open>stale_unknown_vcp\<close> after a VCP that has one.
\<close>

definition first_tick :: radar_app where
  "first_tick = state_of (run [set_vcp ''VCP 212'', toggle_animation] init_app)"

definition sweep_end :: radar_app where
  "sweep_end =
     state_of (run [set_vcp ''VCP 212'', speed_multiply, speed_multiply, speed_multiply,
                    toggle_animation, fire_timers 24] init_app)"

definition second_step :: radar_app where
  "second_step = state_of (fire_timer sweep_end)"



text \<open>
  The states the user interface can bring about: the four VCP buttons, the
  entries of the two option menus, the speed button, the Run/Stop button and
  the timer. A handler that raises leaves the state it had reached.
\<close>

inductive reachable :: "radar_app \<Rightarrow> bool" where
  start: "reachable init_app"
| vcp_button:
    "reachable s \<Longrightarrow> name \<in> set [''VCP 12'', ''VCP 35'', ''VCP 212'', ''VCP 215''] \<Longrightarrow>
     reachable (state_of (set_vcp name s))"
| sails_menu_entry:
    "reachable s \<Longrightarrow> choice \<in> set [''None'', ''SAILS 1'', ''SAILS 2'', ''SAILS 3''] \<Longrightarrow>
     reachable (state_of (set_sails choice s))"
| mrle_menu_entry:
    "reachable s \<Longrightarrow> choice \<in> set [''None'', ''MRLE 2'', ''MRLE 3'', ''MRLE 4''] \<Longrightarrow>
     reachable (state_of (mrle_selected (s\<lparr>mrle_var := choice\<rparr>)))"
| speed_button: "reachable s \<Longrightarrow> reachable (state_of (speed_multiply s))"
| run_button: "reachable s \<Longrightarrow> reachable (state_of (toggle_animation s))"
| timer: "reachable s \<Longrightarrow> reachable (state_of (fire_timer s))"

text \<open>
  What holds in every such state: once a VCP is chosen the sequence is not
  empty, its steps have the ranges their labels need and the step index is
  in range; while running, the parameters of the current step are the ones
  loaded.
\<close>

definition sweep_inv :: "radar_app \<Rightarrow> bool" where
  "sweep_inv s =
     (0 \<le> speed_multiplier s \<and>
      mrle_var s \<in> set [''None'', ''MRLE 2'', ''MRLE 3'', ''MRLE 4''] \<and>
      (if vcp_selected s
       then selected_vcp s \<in> Some ` set [''VCP 12'', ''VCP 35'', ''VCP 212'', ''VCP 215''] \<and>
            pattern_step_index s < length (pattern_sequence s) \<and>
            list_all step_ok (pattern_sequence s) \<and>
            (if running s
             then step_loaded (pattern_sequence s ! pattern_step_index s) s
             else True)
       else \<not> running s \<and> pattern_sequence s = []))"

section \<open>Insertion positions\<close>

lemma deg_eq [simp]: "deg a = deg b \<longleftrightarrow> a = b"
  by (simp add: deg_def)

lemmas table_defs = vcp_212_def vcp_35_def vcp_215_def vcp_12_def cone1_def cone2_def

lemma find_last_snoc:
  "find_last P (xs @ [x]) = (if P x then Some (length xs) else find_last P xs)"
  by (induction xs) (auto split: option.splits)

lemma find_last_None_iff: "find_last P xs = None \<longleftrightarrow> (\<forall>x \<in> set xs. \<not> P x)"
  by (induction xs) (auto split: option.splits)

lemma find_last_Some_iff:
  "find_last P xs = Some i \<longleftrightarrow>
     i < length xs \<and> P (xs ! i) \<and> (\<forall>j. i < j \<and> j < length xs \<longrightarrow> \<not> P (xs ! j))"
proof (induction xs arbitrary: i rule: rev_induct)
  case Nil
  show ?case by simp
next
  case (snoc x xs)
  show ?case
  proof (cases "P x")
    case True
    have "i < length xs \<Longrightarrow> \<exists>j>i. j < Suc (length xs) \<and> P ((xs @ [x]) ! j)"
      using True by (intro exI [of _ "length xs"]) simp
    then show ?thesis using True
      by (auto simp: find_last_snoc nth_append less_Suc_eq)
  next
    case False
    then show ?thesis
      by (auto simp: find_last_snoc snoc.IH nth_append less_Suc_eq)
  qed
qed

subsection \<open>SAILS\<close>

lemma sails_scan_take:
  "n \<le> length p \<Longrightarrow>
   sails_scan sails a p n =
     (case find_last (anchor_match sails a) (take n p) of
        None \<Rightarrow> p
      | Some i \<Rightarrow> insert_at (Suc i) sails_scans p)"
proof (induction n)
  case 0
  show ?case by simp
next
  case (Suc n)
  then have n: "n < length p" by simp
  then have "take (Suc n) p = take n p @ [p ! n]"
    by (simp add: take_Suc_conv_app_nth)
  then show ?case using Suc n
    by (auto simp: find_last_snoc anchor_match_def has_angle_def has_angle_and_label_def)
qed

lemma sails_scan_spec:
  "sails_scan sails a p (length p) =
     insert_after_last (anchor_match sails a) sails_scans p"
  by (simp add: sails_scan_take insert_after_last_def insert_at_def split: option.splits)

lemma anchor_match_angle_only:
  "a \<noteq> deg ''1.3'' \<or> sails \<noteq> ''SAILS 3'' \<Longrightarrow> anchor_match sails a = has_angle a"
  by (auto simp: anchor_match_def fun_eq_iff)

lemma anchor_match_sails3:
  "anchor_match ''SAILS 3'' (deg ''1.3'') = has_angle_and_label (deg ''1.3'') ''V''"
  by (simp add: anchor_match_def fun_eq_iff)

lemma apply_sails_spec:
  "apply_sails sails p =
     foldl (\<lambda>q a. insert_after_last (anchor_match sails a) sails_scans q) p
       (get_or_empty insert_points sails)"
  by (simp add: apply_sails_def sails_scan_spec)

lemma apply_sails_angle_only:
  assumes "sails \<noteq> ''SAILS 3''"
  shows "apply_sails sails p =
     foldl (\<lambda>q a. insert_after_last (has_angle a) sails_scans q) p
       (get_or_empty insert_points sails)"
  using assms by (simp add: apply_sails_spec anchor_match_angle_only)

lemma catalog_last_13:
  assumes "p \<in> {vcp_12, vcp_35, vcp_212, vcp_215}"
  shows "find_last (has_angle_and_label (deg ''1.3'') ''V'') p = Some 5"
    and "find_last (has_angle (deg ''1.3'')) p = Some 5"
  using assms by (auto simp: table_defs has_angle_def has_angle_and_label_def)

lemma apply_sails3_catalog:
  assumes "p \<in> {vcp_12, vcp_35, vcp_212, vcp_215}"
  shows "apply_sails ''SAILS 3'' p =
     foldl (\<lambda>q a. insert_after_last (has_angle a) sails_scans q) p
       (get_or_empty insert_points ''SAILS 3'')"
proof -
  have "insert_after_last (has_angle_and_label (deg ''1.3'') ''V'') sails_scans p =
        insert_after_last (has_angle (deg ''1.3'')) sails_scans p"
    using catalog_last_13 [OF assms] by (simp add: insert_after_last_def)
  then show ?thesis
    by (simp add: apply_sails_spec get_or_empty_def insert_points_def
        anchor_match_sails3 anchor_match_angle_only)
qed

lemma patterns_lookup:
  "get_or_empty patterns ''VCP 212'' = vcp_212"
  "get_or_empty patterns ''VCP 35'' = vcp_35"
  "get_or_empty patterns ''VCP 215'' = vcp_215"
  "get_or_empty patterns ''VCP 12'' = vcp_12"
  by (simp_all add: get_or_empty_def patterns_def)

lemma tables_nonempty:
  "vcp_212 \<noteq> []" "vcp_35 \<noteq> []" "vcp_215 \<noteq> []" "vcp_12 \<noteq> []"
  by (simp_all add: vcp_212_def vcp_35_def vcp_215_def vcp_12_def)

lemma build_sails_only:
  assumes "selected_vcp s = Some vcp" and "get_or_empty patterns vcp \<noteq> []"
    and "sails_var s \<noteq> ''None''" and "mrle_var s = ''None''"
  shows "build_pattern_sequence s =
           Done (s\<lparr>pattern_sequence := apply_sails (sails_var s) (get_or_empty patterns vcp)\<rparr>)"
  using assms by (simp add: build_pattern_sequence_def Let_def)

lemma sails1_vcp_212:
  "apply_sails ''SAILS 1'' vcp_212 = take 9 vcp_212 @ sails_scans @ drop 9 vcp_212"
proof -
  have "find_last (has_angle (deg ''3.1'')) vcp_212 = Some 8"
    by (simp add: table_defs has_angle_def)
  then show ?thesis
    by (simp add: apply_sails_angle_only get_or_empty_def insert_points_def insert_after_last_def)
qed

text \<open>
  C5: for every SAILS choice, each anchor angle inserts the two-step block
  \<open>sails_scans\<close> immediately after the last step whose elevation text equals
  the anchor, and an anchor that no step carries leaves the pattern as it is.
  The inner loop does so for every pattern and every anchor other than the
  \<open>1.3\<close> anchor of \<open>SAILS 3\<close>; on the four tables of the program it does so
  for all three choices. \<open>SAILS 1\<close> on \<open>VCP 212\<close> gives 17 + 2 = 19 steps,
  the two new ones right after index 8, the last \<open>3.1\<close> step.
\<close>

theorem sails_inserts_after_last_anchor:
  "(a \<noteq> deg ''1.3'' \<or> sails \<noteq> ''SAILS 3'' \<longrightarrow>
      sails_scan sails a p (length p) = insert_after_last (has_angle a) sails_scans p)
   \<and> (find_last (has_angle a) p = None \<longrightarrow> sails_scan sails a p (length p) = p)
   \<and> (selected_vcp s = Some vcp \<and>
        vcp \<in> set [''VCP 12'', ''VCP 35'', ''VCP 212'', ''VCP 215''] \<and>
        sails_var s \<in> set [''SAILS 1'', ''SAILS 2'', ''SAILS 3''] \<and>
        mrle_var s = ''None'' \<longrightarrow>
      build_pattern_sequence s =
        Done (s\<lparr>pattern_sequence :=
          foldl (\<lambda>q a. insert_after_last (has_angle a) sails_scans q)
            (get_or_empty patterns vcp) (get_or_empty insert_points (sails_var s))\<rparr>))
   \<and> (selected_vcp s = Some ''VCP 212'' \<and> sails_var s = ''SAILS 1'' \<and>
        mrle_var s = ''None'' \<longrightarrow>
      build_pattern_sequence s =
        Done (s\<lparr>pattern_sequence := take 9 vcp_212 @ sails_scans @ drop 9 vcp_212\<rparr>))
   \<and> length vcp_212 = 17
   \<and> length (take 9 vcp_212 @ sails_scans @ drop 9 vcp_212) = 19
   \<and> find_last (has_angle (deg ''3.1'')) vcp_212 = Some 8"
proof (intro conjI impI)
  assume "a \<noteq> deg ''1.3'' \<or> sails \<noteq> ''SAILS 3''"
  then show "sails_scan sails a p (length p) = insert_after_last (has_angle a) sails_scans p"
    by (simp add: sails_scan_spec anchor_match_angle_only)
next
  assume "find_last (has_angle a) p = None"
  then have "find_last (anchor_match sails a) p = None"
    by (auto simp: find_last_None_iff anchor_match_def has_angle_def has_angle_and_label_def)
  then show "sails_scan sails a p (length p) = p"
    by (simp add: sails_scan_spec insert_after_last_def)
next
  assume h: "selected_vcp s = Some vcp \<and>
        vcp \<in> set [''VCP 12'', ''VCP 35'', ''VCP 212'', ''VCP 215''] \<and>
        sails_var s \<in> set [''SAILS 1'', ''SAILS 2'', ''SAILS 3''] \<and>
        mrle_var s = ''None''"
  let ?base = "get_or_empty patterns vcp"
  from h have base: "?base \<in> {vcp_12, vcp_35, vcp_212, vcp_215}"
    by (auto simp: patterns_lookup)
  then have ne: "?base \<noteq> []"
    using tables_nonempty by auto
  from h have sv: "sails_var s \<noteq> ''None''" by auto
  have "apply_sails (sails_var s) ?base =
          foldl (\<lambda>q a. insert_after_last (has_angle a) sails_scans q) ?base
            (get_or_empty insert_points (sails_var s))"
  proof (cases "sails_var s = ''SAILS 3''")
    case True
    then show ?thesis using apply_sails3_catalog [OF base] by simp
  next
    case False
    then show ?thesis by (rule apply_sails_angle_only)
  qed
  then show "build_pattern_sequence s =
        Done (s\<lparr>pattern_sequence :=
          foldl (\<lambda>q a. insert_after_last (has_angle a) sails_scans q)
            (get_or_empty patterns vcp) (get_or_empty insert_points (sails_var s))\<rparr>)"
    using build_sails_only [of s vcp] h ne sv by simp
next
  assume h: "selected_vcp s = Some ''VCP 212'' \<and> sails_var s = ''SAILS 1'' \<and>
        mrle_var s = ''None''"
  then show "build_pattern_sequence s =
        Done (s\<lparr>pattern_sequence := take 9 vcp_212 @ sails_scans @ drop 9 vcp_212\<rparr>)"
    using build_sails_only [of s "''VCP 212''"]
    by (simp add: patterns_lookup tables_nonempty sails1_vcp_212)
next
  show "length vcp_212 = 17" by (simp add: vcp_212_def)
next
  show "length (take 9 vcp_212 @ sails_scans @ drop 9 vcp_212) = 19"
    by (simp add: vcp_212_def sails_scans_def)
next
  show "find_last (has_angle (deg ''3.1'')) vcp_212 = Some 8"
    by (simp add: table_defs has_angle_def)
qed

theorem sails_inserts_after_last_anchor_witness:
  "deg ''8.0'' \<noteq> deg ''1.3''
   \<and> find_last (has_angle (deg ''8.0'')) vcp_35 = None
   \<and> sails_scan ''SAILS 3'' (deg ''8.0'') vcp_35 (length vcp_35) = vcp_35
   \<and> selected_vcp (init_app\<lparr>selected_vcp := Some ''VCP 212'', sails_var := ''SAILS 1''\<rparr>)
       = Some ''VCP 212''
   \<and> ''VCP 212'' \<in> set [''VCP 12'', ''VCP 35'', ''VCP 212'', ''VCP 215'']
   \<and> ''SAILS 1'' \<in> set [''SAILS 1'', ''SAILS 2'', ''SAILS 3'']
   \<and> mrle_var (init_app\<lparr>selected_vcp := Some ''VCP 212'', sails_var := ''SAILS 1''\<rparr>) = ''None''
   \<and> build_pattern_sequence (init_app\<lparr>selected_vcp := Some ''VCP 212'', sails_var := ''SAILS 1''\<rparr>)
       = Done (init_app\<lparr>selected_vcp := Some ''VCP 212'', sails_var := ''SAILS 1'',
            pattern_sequence := take 9 vcp_212 @ sails_scans @ drop 9 vcp_212\<rparr>)"
proof -
  let ?s = "init_app\<lparr>selected_vcp := Some ''VCP 212'', sails_var := ''SAILS 1''\<rparr>"
  have angles: "deg ''8.0'' \<noteq> deg ''1.3''"
    by simp
  then have anchor: "deg ''8.0'' \<noteq> deg ''1.3'' \<or> ''SAILS 3'' \<noteq> ''SAILS 3''"
    by simp
  have absent: "find_last (has_angle (deg ''8.0'')) vcp_35 = None"
    by (simp add: table_defs has_angle_def)
  have sel: "selected_vcp ?s = Some ''VCP 212''" and sails: "sails_var ?s = ''SAILS 1''"
    and mrle: "mrle_var ?s = ''None''"
    by (simp_all add: init_app_def)
  have names: "''VCP 212'' \<in> set [''VCP 12'', ''VCP 35'', ''VCP 212'', ''VCP 215'']"
    "''SAILS 1'' \<in> set [''SAILS 1'', ''SAILS 2'', ''SAILS 3'']"
    by simp_all
  show ?thesis
    using sails_inserts_after_last_anchor
      [of "deg ''8.0''" "''SAILS 3''" vcp_35 ?s "''VCP 212''"]
      angles anchor absent sel sails mrle names
    by blast
qed

subsection \<open>MRLE\<close>

lemma filter_upt_snoc:
  "filter (\<lambda>i. P ((xs @ [x]) ! i)) [0..<length xs] = filter (\<lambda>i. P (xs ! i)) [0..<length xs]"
  by (rule filter_cong) (auto simp: nth_append)

lemma last_index_comprehension:
  "(if filter (\<lambda>i. P (xs ! i)) [0..<length xs] = [] then None
    else Some (last (filter (\<lambda>i. P (xs ! i)) [0..<length xs]))) = find_last P xs"
proof (induction xs rule: rev_induct)
  case Nil
  show ?case by simp
next
  case (snoc x xs)
  then show ?case
    by (auto simp: find_last_snoc filter_upt_snoc)
qed

lemma apply_mrle_spec:
  "apply_mrle count p = insert_after_last (has_angle (deg ''5.1'')) (mrle_scans count) p"
  using last_index_comprehension [of "has_angle (deg ''5.1'')" p]
  by (auto simp: apply_mrle_def angle_indices_def insert_after_last_def insert_at_def
      has_angle_def Let_def split: option.splits if_splits)

lemma mrle_count_menu:
  "mrle_count ''MRLE 2'' = Inr 2" "mrle_count ''MRLE 3'' = Inr 3" "mrle_count ''MRLE 4'' = Inr 4"
  by (simp_all add: mrle_count_def digit_value_def)

lemma last_51:
  "find_last (has_angle (deg ''5.1'')) vcp_12 = Some 10"
  "find_last (has_angle (deg ''5.1'')) vcp_212 = Some 10"
  by (simp_all add: table_defs has_angle_def)

lemma build_mrle_only:
  assumes "selected_vcp s = Some vcp" and "vcp = ''VCP 12'' \<or> vcp = ''VCP 212''"
    and "sails_var s = ''None''" and "mrle_var s \<noteq> ''None''"
    and "mrle_count (mrle_var s) = Inr count"
  shows "build_pattern_sequence s =
           Done (s\<lparr>pattern_sequence := apply_mrle count (get_or_empty patterns vcp)\<rparr>)"
  using assms
  by (auto simp: build_pattern_sequence_def Let_def patterns_lookup tables_nonempty)

text \<open>
  C7: the MRLE block has 4 steps for count 2, 6 for count 3 and 7 for count 4
  (the four base steps, two more from count 3 on, and one combined \<open>Z/V\<close>
  step for count 4). The whole block goes immediately after the last step
  whose elevation text is \<open>5.1\<close>, and a pattern without such a step is left as
  it is. On \<open>VCP 12\<close> and \<open>VCP 212\<close> that step is at index 10.
\<close>

theorem mrle_block_after_last_51:
  "length (mrle_scans 2) = 4 \<and> length (mrle_scans 3) = 6 \<and> length (mrle_scans 4) = 7
   \<and> mrle_scans 3 = mrle_scans 2 @ [cone1 ''Z'' (deg ''1.3'') (-0.38) 8 231,
                                     cone1 ''V'' (deg ''1.3'') (-0.40) 8 80]
   \<and> mrle_scans 4 = mrle_scans 3 @ [cone2 ''Z/V'' (deg ''1.8'') (-0.43) 8 208 80]
   \<and> apply_mrle count p = insert_after_last (has_angle (deg ''5.1'')) (mrle_scans count) p
   \<and> (find_last (has_angle (deg ''5.1'')) p = None \<longrightarrow> apply_mrle count p = p)
   \<and> (selected_vcp s = Some vcp \<and> vcp \<in> set [''VCP 12'', ''VCP 212''] \<and>
        (mrle_var s, count) \<in> set [(''MRLE 2'', 2), (''MRLE 3'', 3), (''MRLE 4'', 4)] \<and>
        sails_var s = ''None'' \<longrightarrow>
      find_last (has_angle (deg ''5.1'')) (get_or_empty patterns vcp) = Some 10 \<and>
      build_pattern_sequence s =
        Done (s\<lparr>pattern_sequence :=
          take 11 (get_or_empty patterns vcp) @ mrle_scans count
            @ drop 11 (get_or_empty patterns vcp)\<rparr>))"
proof (intro conjI impI)
  show "length (mrle_scans 2) = 4" "length (mrle_scans 3) = 6" "length (mrle_scans 4) = 7"
    by (simp_all add: mrle_scans_def)
  show "mrle_scans 3 = mrle_scans 2 @ [cone1 ''Z'' (deg ''1.3'') (-0.38) 8 231,
                                     cone1 ''V'' (deg ''1.3'') (-0.40) 8 80]"
    by (simp add: mrle_scans_def)
  show "mrle_scans 4 = mrle_scans 3 @ [cone2 ''Z/V'' (deg ''1.8'') (-0.43) 8 208 80]"
    by (simp add: mrle_scans_def)
  show "apply_mrle count p = insert_after_last (has_angle (deg ''5.1'')) (mrle_scans count) p"
    by (rule apply_mrle_spec)
next
  assume "find_last (has_angle (deg ''5.1'')) p = None"
  then show "apply_mrle count p = p"
    by (simp add: apply_mrle_spec insert_after_last_def)
next
  assume h: "selected_vcp s = Some vcp \<and> vcp \<in> set [''VCP 12'', ''VCP 212''] \<and>
        (mrle_var s, count) \<in> set [(''MRLE 2'', 2), (''MRLE 3'', 3), (''MRLE 4'', 4)] \<and>
        sails_var s = ''None''"
  then have vcp: "vcp = ''VCP 12'' \<or> vcp = ''VCP 212''" by auto
  then show pos: "find_last (has_angle (deg ''5.1'')) (get_or_empty patterns vcp) = Some 10"
    by (auto simp: patterns_lookup last_51)
  from h have "mrle_var s \<noteq> ''None''" and "mrle_count (mrle_var s) = Inr count"
    by (auto simp: mrle_count_menu)
  then have "build_pattern_sequence s =
           Done (s\<lparr>pattern_sequence := apply_mrle count (get_or_empty patterns vcp)\<rparr>)"
    using build_mrle_only [of s vcp count] h vcp by blast
  then show "build_pattern_sequence s =
        Done (s\<lparr>pattern_sequence :=
          take 11 (get_or_empty patterns vcp) @ mrle_scans count
            @ drop 11 (get_or_empty patterns vcp)\<rparr>)"
    using pos by (simp add: apply_mrle_spec insert_after_last_def)
qed

theorem mrle_block_after_last_51_witness:
  "find_last (has_angle (deg ''5.1'')) sails_scans = None
   \<and> apply_mrle 4 sails_scans = sails_scans
   \<and> selected_vcp (init_app\<lparr>selected_vcp := Some ''VCP 12'', mrle_var := ''MRLE 4''\<rparr>)
       = Some ''VCP 12''
   \<and> ''VCP 12'' \<in> set [''VCP 12'', ''VCP 212'']
   \<and> (mrle_var (init_app\<lparr>selected_vcp := Some ''VCP 12'', mrle_var := ''MRLE 4''\<rparr>), 4)
       \<in> set [(''MRLE 2'', 2), (''MRLE 3'', 3), (''MRLE 4'', 4::int)]
   \<and> sails_var (init_app\<lparr>selected_vcp := Some ''VCP 12'', mrle_var := ''MRLE 4''\<rparr>) = ''None''
   \<and> build_pattern_sequence (init_app\<lparr>selected_vcp := Some ''VCP 12'', mrle_var := ''MRLE 4''\<rparr>)
       = Done (init_app\<lparr>selected_vcp := Some ''VCP 12'', mrle_var := ''MRLE 4'',
            pattern_sequence :=
              take 11 (get_or_empty patterns ''VCP 12'') @ mrle_scans 4
                @ drop 11 (get_or_empty patterns ''VCP 12'')\<rparr>)"
proof -
  let ?s = "init_app\<lparr>selected_vcp := Some ''VCP 12'', mrle_var := ''MRLE 4''\<rparr>"
  have absent: "find_last (has_angle (deg ''5.1'')) sails_scans = None"
    by (simp add: sails_scans_def cone1_def has_angle_def)
  have sel: "selected_vcp ?s = Some ''VCP 12''" and sails: "sails_var ?s = ''None''"
    by (simp_all add: init_app_def)
  have names: "''VCP 12'' \<in> set [''VCP 12'', ''VCP 212'']"
    "(mrle_var ?s, 4) \<in> set [(''MRLE 2'', 2), (''MRLE 3'', 3), (''MRLE 4'', 4::int)]"
    by simp_all
  show ?thesis
    using mrle_block_after_last_51 [of 4 sails_scans ?s "''VCP 12''"]
      absent sel sails names
    by blast
qed

subsection \<open>The \<open>1.3\<close> anchor of SAILS 3\<close>

lemma build_sails3_vcp_212:
  "apply_sails ''SAILS 3'' vcp_212 =
     take 6 vcp_212 @ sails_scans @ take 4 (drop 6 vcp_212) @ sails_scans
       @ take 3 (drop 10 vcp_212) @ sails_scans @ drop 13 vcp_212"
  by (simp add: apply_sails_spec get_or_empty_def insert_points_def insert_after_last_def
      anchor_match_def has_angle_def has_angle_and_label_def table_defs sails_scans_def)

text \<open>
  C6: for \<open>SAILS 3\<close> the \<open>1.3\<close> anchor matches only a step labelled
  \<open>V\<close>: the block goes after the last step with that angle and that label,
  also when a \<open>Z\<close> step of the same angle comes later. On \<open>VCP 212\<close> the
  block inserted for this anchor follows the step at index 5, which is the
  \<open>V\<close> step at \<open>1.3\<close>. For every other anchor and choice the match is on the
  angle alone.
\<close>

theorem sails3_first_anchor_needs_V:
  "sails_scan ''SAILS 3'' (deg ''1.3'') p (length p) =
     insert_after_last (has_angle_and_label (deg ''1.3'') ''V'') sails_scans p
   \<and> sails_scan ''SAILS 3'' (deg ''1.3'')
        [cone1 ''V'' (deg ''1.3'') (-0.29) 8 74, cone1 ''Z'' (deg ''1.3'') (-0.38) 8 231] 2 =
      [cone1 ''V'' (deg ''1.3'') (-0.29) 8 74] @ sails_scans
        @ [cone1 ''Z'' (deg ''1.3'') (-0.38) 8 231]
   \<and> (a \<noteq> deg ''1.3'' \<or> sails \<noteq> ''SAILS 3'' \<longrightarrow>
        sails_scan sails a p (length p) = insert_after_last (has_angle a) sails_scans p)
   \<and> (selected_vcp s = Some ''VCP 212'' \<and> sails_var s = ''SAILS 3'' \<and>
        mrle_var s = ''None'' \<longrightarrow>
      build_pattern_sequence s =
        Done (s\<lparr>pattern_sequence :=
          take 6 vcp_212 @ sails_scans @ take 4 (drop 6 vcp_212) @ sails_scans
            @ take 3 (drop 10 vcp_212) @ sails_scans @ drop 13 vcp_212\<rparr>))
   \<and> last (take 6 vcp_212) = cone1 ''V'' (deg ''1.3'') (-0.29) 8 74
   \<and> vcp_212 ! 4 = cone1 ''Z'' (deg ''1.3'') (-0.38) 8 231
   \<and> hd sails_scans = cone1 ''Z'' (deg ''0.5'') (-0.5) 8 250"
proof (intro conjI impI)
  show "sails_scan ''SAILS 3'' (deg ''1.3'') p (length p) =
     insert_after_last (has_angle_and_label (deg ''1.3'') ''V'') sails_scans p"
    by (simp add: sails_scan_spec anchor_match_sails3)
  show "sails_scan ''SAILS 3'' (deg ''1.3'')
        [cone1 ''V'' (deg ''1.3'') (-0.29) 8 74, cone1 ''Z'' (deg ''1.3'') (-0.38) 8 231] 2 =
      [cone1 ''V'' (deg ''1.3'') (-0.29) 8 74] @ sails_scans
        @ [cone1 ''Z'' (deg ''1.3'') (-0.38) 8 231]"
    by (simp add: eval_nat_numeral cone1_def insert_at_def)
next
  assume "a \<noteq> deg ''1.3'' \<or> sails \<noteq> ''SAILS 3''"
  then show "sails_scan sails a p (length p) = insert_after_last (has_angle a) sails_scans p"
    by (simp add: sails_scan_spec anchor_match_angle_only)
next
  assume "selected_vcp s = Some ''VCP 212'' \<and> sails_var s = ''SAILS 3'' \<and>
        mrle_var s = ''None''"
  then show "build_pattern_sequence s =
        Done (s\<lparr>pattern_sequence :=
          take 6 vcp_212 @ sails_scans @ take 4 (drop 6 vcp_212) @ sails_scans
            @ take 3 (drop 10 vcp_212) @ sails_scans @ drop 13 vcp_212\<rparr>)"
    using build_sails_only [of s "''VCP 212''"]
    by (simp add: patterns_lookup tables_nonempty build_sails3_vcp_212)
next
  show "last (take 6 vcp_212) = cone1 ''V'' (deg ''1.3'') (-0.29) 8 74"
    by (simp add: vcp_212_def)
  show "vcp_212 ! 4 = cone1 ''Z'' (deg ''1.3'') (-0.38) 8 231"
    by (simp add: vcp_212_def)
  show "hd sails_scans = cone1 ''Z'' (deg ''0.5'') (-0.5) 8 250"
    by (simp add: sails_scans_def)
qed

theorem sails3_first_anchor_needs_V_witness:
  "deg ''4.0'' \<noteq> deg ''1.3''
   \<and> sails_scan ''SAILS 3'' (deg ''4.0'') vcp_12 (length vcp_12) =
       insert_after_last (has_angle (deg ''4.0'')) sails_scans vcp_12
   \<and> selected_vcp (init_app\<lparr>selected_vcp := Some ''VCP 212'', sails_var := ''SAILS 3''\<rparr>)
       = Some ''VCP 212''
   \<and> sails_var (init_app\<lparr>selected_vcp := Some ''VCP 212'', sails_var := ''SAILS 3''\<rparr>)
       = ''SAILS 3''
   \<and> mrle_var (init_app\<lparr>selected_vcp := Some ''VCP 212'', sails_var := ''SAILS 3''\<rparr>) = ''None''
   \<and> build_pattern_sequence (init_app\<lparr>selected_vcp := Some ''VCP 212'', sails_var := ''SAILS 3''\<rparr>)
       = Done (init_app\<lparr>selected_vcp := Some ''VCP 212'', sails_var := ''SAILS 3'',
            pattern_sequence :=
              take 6 vcp_212 @ sails_scans @ take 4 (drop 6 vcp_212) @ sails_scans
                @ take 3 (drop 10 vcp_212) @ sails_scans @ drop 13 vcp_212\<rparr>)"
proof -
  let ?s = "init_app\<lparr>selected_vcp := Some ''VCP 212'', sails_var := ''SAILS 3''\<rparr>"
  have angles: "deg ''4.0'' \<noteq> deg ''1.3''"
    by simp
  then have anchor: "deg ''4.0'' \<noteq> deg ''1.3'' \<or> ''SAILS 3'' \<noteq> ''SAILS 3''"
    by simp
  have sel: "selected_vcp ?s = Some ''VCP 212''" and sails: "sails_var ?s = ''SAILS 3''"
    and mrle: "mrle_var ?s = ''None''"
    by (simp_all add: init_app_def)
  show ?thesis
    using sails3_first_anchor_needs_V [of vcp_12 "deg ''4.0''" "''SAILS 3''" ?s]
      angles anchor sel sails mrle
    by blast
qed

subsection \<open>No inserts\<close>

text \<open>
  C9: with both selections \<open>None\<close>, the built sequence is the base pattern
  of the selected VCP, unchanged.
\<close>

theorem build_without_inserts_is_base:
  "selected_vcp s = Some vcp \<Longrightarrow> sails_var s = ''None'' \<Longrightarrow> mrle_var s = ''None'' \<Longrightarrow>
   build_pattern_sequence s = Done (s\<lparr>pattern_sequence := get_or_empty patterns vcp\<rparr>)"
  by (simp add: build_pattern_sequence_def Let_def)

theorem build_without_inserts_is_base_witness:
  "selected_vcp (init_app\<lparr>selected_vcp := Some ''VCP 215''\<rparr>) = Some ''VCP 215''
   \<and> sails_var (init_app\<lparr>selected_vcp := Some ''VCP 215''\<rparr>) = ''None''
   \<and> mrle_var (init_app\<lparr>selected_vcp := Some ''VCP 215''\<rparr>) = ''None''
   \<and> build_pattern_sequence (init_app\<lparr>selected_vcp := Some ''VCP 215''\<rparr>)
       = Done (init_app\<lparr>selected_vcp := Some ''VCP 215'', pattern_sequence := vcp_215\<rparr>)"
  using build_without_inserts_is_base [of "init_app\<lparr>selected_vcp := Some ''VCP 215''\<rparr>" "''VCP 215''"]
  by (simp add: init_app_def patterns_lookup)

section \<open>Selections before any VCP is chosen\<close>

text \<open>
  C10: while no VCP has been selected, choosing a SAILS or MRLE entry puts
  that selection back to \<open>None\<close> and changes nothing else in the state.
\<close>

theorem idle_selection_resets_choice:
  "\<not> vcp_selected s \<Longrightarrow>
     set_sails choice s = Done (s\<lparr>sails_var := ''None''\<rparr>)
     \<and> sails_selected (s\<lparr>sails_var := choice\<rparr>) = Done (s\<lparr>sails_var := ''None''\<rparr>)
     \<and> mrle_selected (s\<lparr>mrle_var := choice\<rparr>) = Done (s\<lparr>mrle_var := ''None''\<rparr>)"
  by (simp add: set_sails_def sails_selected_def mrle_selected_def)

theorem idle_selection_resets_choice_witness:
  "\<not> vcp_selected init_app
   \<and> set_sails ''SAILS 2'' init_app = Done init_app
   \<and> sails_selected (init_app\<lparr>sails_var := ''SAILS 2''\<rparr>) = Done init_app
   \<and> mrle_selected (init_app\<lparr>mrle_var := ''SAILS 2''\<rparr>) = Done init_app"
  using idle_selection_resets_choice [of init_app "''SAILS 2''"]
  by (simp add: init_app_def)

section \<open>Ticks\<close>

lemma advance_pattern_step_loads:
  assumes "pattern_step_index s < length (pattern_sequence s)"
    and "step_ok (pattern_sequence s ! pattern_step_index s)"
  shows "advance_pattern_step s =
     Done (s\<lparr>sweep_progress := 0, angle := 90,
       sweep_speed := Some (step_speed (pattern_sequence s ! pattern_step_index s)
                              * of_int (speed_multiplier s)),
       cone_angle_width := Some (step_cone_width (pattern_sequence s ! pattern_step_index s)),
       current_label := Some (step_label (pattern_sequence s ! pattern_step_index s)),
       sweep_radius := step_radius (pattern_sequence s ! pattern_step_index s),
       z_label := step_label (pattern_sequence s ! pattern_step_index s),
       angle_label := step_angle (pattern_sequence s ! pattern_step_index s)\<rparr>)"
proof -
  from assms(1) have "pattern_sequence s \<noteq> []" by auto
  then show ?thesis using assms
    by (auto simp: advance_pattern_step_def Let_def step_ok_def step_radius_def
        split: option.splits if_splits)
qed

lemma advance_pattern_step_clamps:
  assumes "pattern_sequence s \<noteq> []"
    and "length (pattern_sequence s) \<le> pattern_step_index s"
  shows "advance_pattern_step s = advance_pattern_step (s\<lparr>pattern_step_index := 0\<rparr>)"
  using assms by (simp add: advance_pattern_step_def Let_def)

lemma draw_sweep_cone_loaded:
  assumes "pattern_step_index s < length (pattern_sequence s)"
    and "step_ok (pattern_sequence s ! pattern_step_index s)"
    and "step_loaded (pattern_sequence s ! pattern_step_index s) s"
  shows "\<exists>cs. draw_sweep_cone s = Done (s\<lparr>sweep_cone := cs\<rparr>)"
proof (cases "step_label (pattern_sequence s ! pattern_step_index s) = ''Z/V''")
  case True
  with assms(2) obtain rz rv
    where "step_range_z (pattern_sequence s ! pattern_step_index s) = Some rz"
      and "step_range_v (pattern_sequence s ! pattern_step_index s) = Some rv"
    by (auto simp: step_ok_def)
  then show ?thesis using True assms(1,3)
    by (simp add: draw_sweep_cone_def Let_def step_loaded_def) blast
next
  case False
  with assms(2) obtain r
    where "step_range (pattern_sequence s ! pattern_step_index s) = Some r"
    by (auto simp: step_ok_def)
  then show ?thesis using False assms(3)
    by (simp add: draw_sweep_cone_def Let_def step_loaded_def step_radius_def) blast
qed

lemma animate_inside:
  assumes "running s"
    and "pattern_step_index s < length (pattern_sequence s)"
    and "step_ok (pattern_sequence s ! pattern_step_index s)"
    and "step_loaded (pattern_sequence s ! pattern_step_index s) s"
    and "sweep_speed s = Some v"
    and "\<not> angle s - \<bar>v\<bar> * 5 \<le> - 270"
  shows "\<exists>cs. animate s =
     Done (s\<lparr>sweep_cone := cs, sweep_progress := sweep_progress s + \<bar>v\<bar> * 5,
             angle := angle s - \<bar>v\<bar> * 5, after_pending := after_pending s + 1\<rparr>)"
proof -
  from draw_sweep_cone_loaded [OF assms(2,3,4)]
  obtain cs where "draw_sweep_cone s = Done (s\<lparr>sweep_cone := cs\<rparr>)" ..
  then show ?thesis using assms(1,5,6)
    by (intro exI [of _ cs]) (simp add: animate_def Let_def)
qed

lemma animate_last_step:
  assumes "running s"
    and "pattern_step_index s < length (pattern_sequence s)"
    and "step_ok (pattern_sequence s ! pattern_step_index s)"
    and "step_loaded (pattern_sequence s ! pattern_step_index s) s"
    and "sweep_speed s = Some v"
    and "angle s - \<bar>v\<bar> * 5 \<le> - 270"
    and "length (pattern_sequence s) \<le> Suc (pattern_step_index s)"
  shows "\<exists>cs. animate s =
     Done (s\<lparr>sweep_cone := cs, sweep_progress := sweep_progress s + \<bar>v\<bar> * 5,
             angle := 90, pattern_step_index := 0, running := False,
             toggle_button_text := ''Run''\<rparr>)"
proof -
  from draw_sweep_cone_loaded [OF assms(2,3,4)]
  obtain cs where "draw_sweep_cone s = Done (s\<lparr>sweep_cone := cs\<rparr>)" ..
  then show ?thesis using assms(1,5,6,7)
    by (intro exI [of _ cs]) (simp add: animate_def Let_def)
qed

lemma animate_next_step:
  assumes "running s"
    and "pattern_step_index s < length (pattern_sequence s)"
    and "step_ok (pattern_sequence s ! pattern_step_index s)"
    and "step_loaded (pattern_sequence s ! pattern_step_index s) s"
    and "sweep_speed s = Some v"
    and "angle s - \<bar>v\<bar> * 5 \<le> - 270"
    and "Suc (pattern_step_index s) < length (pattern_sequence s)"
    and "step_ok (pattern_sequence s ! Suc (pattern_step_index s))"
  shows "\<exists>cs. animate s =
     Done (s\<lparr>sweep_cone := cs, sweep_progress := 0, angle := 90,
       pattern_step_index := Suc (pattern_step_index s),
       sweep_speed := Some (step_speed (pattern_sequence s ! Suc (pattern_step_index s))
                              * of_int (speed_multiplier s)),
       cone_angle_width := Some (step_cone_width (pattern_sequence s ! Suc (pattern_step_index s))),
       current_label := Some (step_label (pattern_sequence s ! Suc (pattern_step_index s))),
       sweep_radius := step_radius (pattern_sequence s ! Suc (pattern_step_index s)),
       z_label := step_label (pattern_sequence s ! Suc (pattern_step_index s)),
       angle_label := step_angle (pattern_sequence s ! Suc (pattern_step_index s)),
       after_pending := after_pending s + 1\<rparr>)"
proof -
  from draw_sweep_cone_loaded [OF assms(2,3,4)]
  obtain cs where d: "draw_sweep_cone s = Done (s\<lparr>sweep_cone := cs\<rparr>)" ..
  let ?s4 = "s\<lparr>sweep_cone := cs, sweep_progress := sweep_progress s + \<bar>v\<bar> * 5,
               angle := 90, pattern_step_index := Suc (pattern_step_index s)\<rparr>"
  have a: "advance_pattern_step ?s4 = Done (?s4\<lparr>sweep_progress := 0, angle := 90,
       sweep_speed := Some (step_speed (pattern_sequence s ! Suc (pattern_step_index s))
                              * of_int (speed_multiplier s)),
       cone_angle_width := Some (step_cone_width (pattern_sequence s ! Suc (pattern_step_index s))),
       current_label := Some (step_label (pattern_sequence s ! Suc (pattern_step_index s))),
       sweep_radius := step_radius (pattern_sequence s ! Suc (pattern_step_index s)),
       z_label := step_label (pattern_sequence s ! Suc (pattern_step_index s)),
       angle_label := step_angle (pattern_sequence s ! Suc (pattern_step_index s))\<rparr>)"
    using advance_pattern_step_loads [of ?s4] assms(7,8) by simp
  have "animate s = and_then (advance_pattern_step ?s4)
          (\<lambda>s5. Done (s5\<lparr>after_pending := after_pending s5 + 1\<rparr>))"
    using d assms(1,5,6,7) by (simp add: animate_def Let_def)
  then show ?thesis
    by (intro exI [of _ cs]) (simp add: a)
qed

text \<open>
  C4: in a running machine whose current step is loaded, a tick whose
  decremented angle is at or below -270 returns, puts the angle back to 90
  and moves \<open>pattern_step_index\<close> on by exactly one: past the last step it
  wraps to 0, \<open>running\<close> becomes false and no further tick is queued;
  otherwise the parameters of the next step are loaded and the next tick is
  queued.
\<close>

theorem tick_at_sweep_end:
  assumes "running s"
    and "pattern_step_index s < length (pattern_sequence s)"
    and "list_all step_ok (pattern_sequence s)"
    and "step_loaded (pattern_sequence s ! pattern_step_index s) s"
    and "angle s - \<bar>step_speed (pattern_sequence s ! pattern_step_index s)
                     * of_int (speed_multiplier s)\<bar> * 5 \<le> - 270"
  shows "returns (animate s)
    \<and> pattern_sequence (state_of (animate s)) = pattern_sequence s
    \<and> angle (state_of (animate s)) = 90
    \<and> (if Suc (pattern_step_index s) \<ge> length (pattern_sequence s)
       then pattern_step_index (state_of (animate s)) = 0
            \<and> \<not> running (state_of (animate s))
            \<and> after_pending (state_of (animate s)) = after_pending s
       else pattern_step_index (state_of (animate s)) = Suc (pattern_step_index s)
            \<and> running (state_of (animate s))
            \<and> step_loaded (pattern_sequence s ! Suc (pattern_step_index s))
                 (state_of (animate s))
            \<and> after_pending (state_of (animate s)) = after_pending s + 1)"
proof -
  let ?st = "pattern_sequence s ! pattern_step_index s"
  let ?v = "step_speed ?st * of_int (speed_multiplier s)"
  have ok: "step_ok ?st"
    using assms(2,3) by (simp add: list_all_length)
  have v: "sweep_speed s = Some ?v"
    using assms(4) by (simp add: step_loaded_def)
  show ?thesis
  proof (cases "Suc (pattern_step_index s) \<ge> length (pattern_sequence s)")
    case True
    from animate_last_step [OF assms(1,2) ok assms(4) v assms(5) True]
    show ?thesis using True by auto
  next
    case False
    then have lt: "Suc (pattern_step_index s) < length (pattern_sequence s)" by simp
    then have ok': "step_ok (pattern_sequence s ! Suc (pattern_step_index s))"
      using assms(3) by (simp add: list_all_length)
    from animate_next_step [OF assms(1,2) ok assms(4) v assms(5) lt ok']
    show ?thesis using False assms(1) by (auto simp: step_loaded_def)
  qed
qed



lemmas handler_defs = set_vcp_def build_pattern_sequence_def advance_pattern_step_def
  animate_def draw_sweep_cone_def toggle_animation_def speed_multiply_def fire_timer_def
  label_colors_def Let_def

lemma first_tick_state:
  "first_tick = init_app\<lparr>angle := 88.25, running := True, vcp_selected := True,
     sweep_progress := 1.75, pattern_sequence := vcp_212,
     sweep_cone := [\<lparr>cone_fill = ''#7394BA'', cone_radius = 250, cone_centre = 90,
                     cone_width = 8\<rparr>],
     sweep_speed := Some (- 0.35), cone_angle_width := Some 8,
     current_label := Some ''Z'', sweep_radius := Some 250,
     selected_vcp := Some ''VCP 212'', vcp_title_label := ''VCP 212'',
     toggle_button_text := ''Stop'', toggle_button_enabled := True,
     after_pending := 1\<rparr>"
  by (simp add: first_tick_def handler_defs init_app_def get_or_empty_def patterns_def
      table_defs)

lemma sweep_end_state:
  "sweep_end = init_app\<lparr>angle := - 260, running := True, vcp_selected := True,
     speed_multiplier := 8, fast_mode := 4, sweep_progress := 350,
     pattern_sequence := vcp_212,
     sweep_cone := [\<lparr>cone_fill = ''#7394BA'', cone_radius = 250, cone_centre = - 246,
                     cone_width = 8\<rparr>],
     sweep_speed := Some (- 2.8), cone_angle_width := Some 8,
     current_label := Some ''Z'', sweep_radius := Some 250,
     selected_vcp := Some ''VCP 212'', vcp_title_label := ''VCP 212'',
     toggle_button_text := ''Stop'', toggle_button_enabled := True,
     fast_button := 8, after_pending := 1\<rparr>"
  by (simp add: sweep_end_def handler_defs init_app_def get_or_empty_def patterns_def
      table_defs eval_nat_numeral)

lemma second_step_state:
  "second_step = init_app\<lparr>angle := 90, running := True, vcp_selected := True,
     speed_multiplier := 8, fast_mode := 4, pattern_step_index := 1,
     pattern_sequence := vcp_212,
     sweep_cone := [\<lparr>cone_fill = ''#7394BA'', cone_radius = 250, cone_centre = - 260,
                     cone_width = 8\<rparr>],
     sweep_speed := Some (- 2.32), cone_angle_width := Some 8,
     current_label := Some ''V'', sweep_radius := Some 74,
     selected_vcp := Some ''VCP 212'', vcp_title_label := ''VCP 212'',
     toggle_button_text := ''Stop'', toggle_button_enabled := True,
     fast_button := 8, z_label := ''V'', after_pending := 1\<rparr>"
  by (simp add: second_step_def sweep_end_state handler_defs init_app_def table_defs)



lemma catalog_steps_ok:
  "list_all step_ok vcp_212" "list_all step_ok vcp_35"
  "list_all step_ok vcp_215" "list_all step_ok vcp_12"
  by (simp_all add: table_defs step_ok_def)

theorem tick_at_sweep_end_witness:
  "running sweep_end
   \<and> pattern_step_index sweep_end < length (pattern_sequence sweep_end)
   \<and> list_all step_ok (pattern_sequence sweep_end)
   \<and> step_loaded (pattern_sequence sweep_end ! pattern_step_index sweep_end) sweep_end
   \<and> angle sweep_end - \<bar>step_speed (pattern_sequence sweep_end ! pattern_step_index sweep_end)
                          * of_int (speed_multiplier sweep_end)\<bar> * 5 \<le> - 270
   \<and> returns (animate sweep_end)
   \<and> pattern_step_index (state_of (animate sweep_end)) = 1
   \<and> running (state_of (animate sweep_end))
   \<and> angle (state_of (animate sweep_end)) = 90"
proof -
  have seq: "pattern_sequence sweep_end = vcp_212" and idx: "pattern_step_index sweep_end = 0"
    and run: "running sweep_end"
    by (simp_all add: sweep_end_state init_app_def)
  have len: "pattern_step_index sweep_end < length (pattern_sequence sweep_end)"
    by (simp add: seq idx vcp_212_def)
  have ok: "list_all step_ok (pattern_sequence sweep_end)"
    by (simp add: seq catalog_steps_ok)
  have loaded: "step_loaded (pattern_sequence sweep_end ! pattern_step_index sweep_end) sweep_end"
    by (simp add: sweep_end_state init_app_def step_loaded_def step_radius_def table_defs)
  have edge: "angle sweep_end
      - \<bar>step_speed (pattern_sequence sweep_end ! pattern_step_index sweep_end)
           * of_int (speed_multiplier sweep_end)\<bar> * 5 \<le> - 270"
    by (simp add: sweep_end_state init_app_def table_defs)
  have more: "\<not> length (pattern_sequence sweep_end) \<le> Suc (pattern_step_index sweep_end)"
    by (simp add: seq idx vcp_212_def)
  show ?thesis
    using tick_at_sweep_end [OF run len ok loaded edge] run len ok loaded edge more
    by (simp add: idx)
qed



section \<open>The speed button\<close>

text \<open>
  C2, as amended: with a sequence loaded, \<open>speed_multiply\<close> sets the
  effective speed of the current step to its base speed times the new
  multiplier and leaves \<open>pattern_step_index\<close>, the sequence and \<open>running\<close>
  unchanged; the angle is put back to 90.
\<close>

theorem speed_multiply_reloads_speed:
  assumes "pattern_step_index s < length (pattern_sequence s)"
    and "step_ok (pattern_sequence s ! pattern_step_index s)"
  shows "returns (speed_multiply s)
    \<and> speed_multiplier (state_of (speed_multiply s)) = 2 ^ nat (fast_mode s mod 4)
    \<and> sweep_speed (state_of (speed_multiply s)) =
        Some (step_speed (pattern_sequence s ! pattern_step_index s)
                * of_int (speed_multiplier (state_of (speed_multiply s))))
    \<and> pattern_step_index (state_of (speed_multiply s)) = pattern_step_index s
    \<and> pattern_sequence (state_of (speed_multiply s)) = pattern_sequence s
    \<and> running (state_of (speed_multiply s)) = running s
    \<and> angle (state_of (speed_multiply s)) = 90"
proof -
  let ?s3 = "s\<lparr>fast_mode := fast_mode s mod 4 + 1,
               speed_multiplier := 2 ^ nat (fast_mode s mod 4),
               fast_button := 2 ^ nat (fast_mode s mod 4)\<rparr>"
  from assms(1) have ne: "pattern_sequence s \<noteq> []" by auto
  then have "speed_multiply s = advance_pattern_step ?s3"
    by (simp add: speed_multiply_def Let_def)
  then show ?thesis
    using advance_pattern_step_loads [of ?s3] assms by simp
qed

theorem speed_multiply_reloads_speed_witness:
  "pattern_step_index first_tick < length (pattern_sequence first_tick)
   \<and> step_ok (pattern_sequence first_tick ! pattern_step_index first_tick)
   \<and> returns (speed_multiply first_tick)
   \<and> speed_multiplier (state_of (speed_multiply first_tick)) = 2
   \<and> sweep_speed (state_of (speed_multiply first_tick)) = Some (- 0.7)
   \<and> pattern_step_index (state_of (speed_multiply first_tick)) = 0
   \<and> angle (state_of (speed_multiply first_tick)) = 90"
proof -
  have len: "pattern_step_index first_tick < length (pattern_sequence first_tick)"
    by (simp add: first_tick_state init_app_def vcp_212_def)
  have ok: "step_ok (pattern_sequence first_tick ! pattern_step_index first_tick)"
    by (simp add: first_tick_state init_app_def table_defs step_ok_def)
  have "fast_mode first_tick = 1" "pattern_step_index first_tick = 0"
    "step_speed (pattern_sequence first_tick ! pattern_step_index first_tick) = - 0.35"
    by (simp_all add: first_tick_state init_app_def table_defs)
  then show ?thesis
    using speed_multiply_reloads_speed [OF len ok] len ok by simp
qed

text \<open>
  The angle is not preserved: pressing the speed button after the first tick
  moves it from 88.25 back to 90.
\<close>

theorem speed_multiply_angle_counterexample:
  "pattern_sequence first_tick \<noteq> []
   \<and> angle first_tick = 88.25
   \<and> angle (state_of (speed_multiply first_tick)) = 90
   \<and> angle (state_of (speed_multiply first_tick)) \<noteq> angle first_tick"
  by (simp add: first_tick_state init_app_def handler_defs table_defs)

section \<open>Choosing a VCP during a run\<close>

text \<open>
  C1: \<open>set_vcp\<close> does not assign \<open>pattern_step_index\<close>. Chosen while the
  second step of \<open>VCP 212\<close> is being swept, \<open>VCP 12\<close> is rebuilt and the
  machine stops with both selections \<open>None\<close> and the angle at 90, but the
  index stays 1 and the parameters loaded are those of the second step of
  \<open>VCP 12\<close>, not of the first.
\<close>

theorem set_vcp_keeps_step_index:
  "running second_step
   \<and> pattern_step_index second_step = 1
   \<and> returns (set_vcp ''VCP 12'' second_step)
   \<and> pattern_sequence (state_of (set_vcp ''VCP 12'' second_step)) = vcp_12
   \<and> \<not> running (state_of (set_vcp ''VCP 12'' second_step))
   \<and> angle (state_of (set_vcp ''VCP 12'' second_step)) = 90
   \<and> pattern_step_index (state_of (set_vcp ''VCP 12'' second_step)) = 1
   \<and> current_label (state_of (set_vcp ''VCP 12'' second_step)) = Some ''V''
   \<and> sweep_speed (state_of (set_vcp ''VCP 12'' second_step)) = Some (- 0.40 * 8)
   \<and> sweep_radius (state_of (set_vcp ''VCP 12'' second_step)) = Some 80
   \<and> step_loaded (vcp_12 ! 1) (state_of (set_vcp ''VCP 12'' second_step))
   \<and> \<not> step_loaded (vcp_12 ! 0) (state_of (set_vcp ''VCP 12'' second_step))"
  by (simp add: second_step_state init_app_def handler_defs get_or_empty_def patterns_def
      table_defs step_loaded_def step_radius_def)

section \<open>Run on an empty sequence\<close>


section \<open>An invariant of the reachable states\<close>

text \<open>
  The hypotheses of the tick and speed-button theorems above (index in
  range, well-formed steps, current step loaded) hold in every state the
  user interface can reach, and no handler raises there.
\<close>

lemma insert_after_last_all:
  assumes "list_all Q block" and "list_all Q p"
  shows "list_all Q (insert_after_last P block p)"
  using assms
  by (auto simp: insert_after_last_def list_all_iff split: option.splits
      dest: in_set_takeD in_set_dropD)

lemma insert_after_last_nonempty:
  "p \<noteq> [] \<Longrightarrow> insert_after_last P block p \<noteq> []"
  by (cases p) (auto simp: insert_after_last_def split: option.splits)

lemma sails_scans_ok: "list_all step_ok sails_scans"
  by (simp add: sails_scans_def cone1_def step_ok_def)

lemma mrle_scans_ok: "list_all step_ok (mrle_scans count)"
  by (simp add: mrle_scans_def cone1_def cone2_def step_ok_def)

lemma foldl_insert_ok:
  "p \<noteq> [] \<and> list_all step_ok p \<Longrightarrow>
   foldl (\<lambda>q a. insert_after_last (P a) sails_scans q) p as \<noteq> [] \<and>
   list_all step_ok (foldl (\<lambda>q a. insert_after_last (P a) sails_scans q) p as)"
  by (induction as arbitrary: p)
     (simp_all add: insert_after_last_all insert_after_last_nonempty sails_scans_ok)

lemma apply_sails_ok:
  assumes "p \<noteq> []" and "list_all step_ok p"
  shows "apply_sails sails p \<noteq> []" and "list_all step_ok (apply_sails sails p)"
  using foldl_insert_ok [of p "anchor_match sails"] assms
  by (simp_all add: apply_sails_spec)

lemma apply_mrle_ok:
  assumes "p \<noteq> []" and "list_all step_ok p"
  shows "apply_mrle count p \<noteq> []" and "list_all step_ok (apply_mrle count p)"
  using assms
  by (simp_all add: apply_mrle_spec insert_after_last_all insert_after_last_nonempty
      mrle_scans_ok)

lemma build_from_menus:
  assumes "selected_vcp s = Some vcp"
    and "vcp \<in> set [''VCP 12'', ''VCP 35'', ''VCP 212'', ''VCP 215'']"
    and "mrle_var s \<in> set [''None'', ''MRLE 2'', ''MRLE 3'', ''MRLE 4'']"
  shows "\<exists>q. q \<noteq> [] \<and> list_all step_ok q \<and>
           build_pattern_sequence s = Done (s\<lparr>pattern_sequence := q\<rparr>)"
proof -
  let ?base = "get_or_empty patterns vcp"
  let ?p1 = "if sails_var s \<noteq> ''None'' then apply_sails (sails_var s) ?base else ?base"
  from assms(2) have base: "?base \<noteq> []" "list_all step_ok ?base"
    by (auto simp: patterns_lookup tables_nonempty catalog_steps_ok)
  then have p1: "?p1 \<noteq> []" "list_all step_ok ?p1"
    by (simp_all add: apply_sails_ok)
  show ?thesis
  proof (cases "mrle_var s \<noteq> ''None'' \<and> vcp \<in> set [''VCP 212'', ''VCP 12'']")
    case True
    with assms(3) obtain count where "mrle_count (mrle_var s) = Inr count"
      by (auto simp: mrle_count_menu)
    then have "build_pattern_sequence s = Done (s\<lparr>pattern_sequence := apply_mrle count ?p1\<rparr>)"
      using True assms(1) base(1) by (simp add: build_pattern_sequence_def Let_def)
    then show ?thesis
      using apply_mrle_ok [OF p1] by blast
  next
    case False
    then have "build_pattern_sequence s = Done (s\<lparr>pattern_sequence := ?p1\<rparr>)"
      using assms(1) base(1) by (auto simp: build_pattern_sequence_def Let_def)
    then show ?thesis
      using p1 by blast
  qed
qed

lemma advance_pattern_step_any:
  assumes "pattern_sequence s \<noteq> []" and "list_all step_ok (pattern_sequence s)"
  shows "\<exists>k < length (pattern_sequence s).
     (k = pattern_step_index s \<or> k = 0) \<and>
     advance_pattern_step s =
       Done (s\<lparr>pattern_step_index := k, sweep_progress := 0, angle := 90,
         sweep_speed := Some (step_speed (pattern_sequence s ! k) * of_int (speed_multiplier s)),
         cone_angle_width := Some (step_cone_width (pattern_sequence s ! k)),
         current_label := Some (step_label (pattern_sequence s ! k)),
         sweep_radius := step_radius (pattern_sequence s ! k),
         z_label := step_label (pattern_sequence s ! k),
         angle_label := step_angle (pattern_sequence s ! k)\<rparr>)"
proof (cases "pattern_step_index s < length (pattern_sequence s)")
  case True
  then have "step_ok (pattern_sequence s ! pattern_step_index s)"
    using assms(2) by (simp add: list_all_length)
  from advance_pattern_step_loads [OF True this] True
  show ?thesis by (intro exI [of _ "pattern_step_index s"]) simp
next
  case False
  let ?s0 = "s\<lparr>pattern_step_index := 0\<rparr>"
  have zero: "pattern_step_index ?s0 < length (pattern_sequence ?s0)"
    using assms(1) by simp
  then have "step_ok (pattern_sequence ?s0 ! pattern_step_index ?s0)"
    using assms(2) by (simp add: list_all_length)
  from advance_pattern_step_loads [OF zero this]
    advance_pattern_step_clamps [OF assms(1)] False assms(1)
  show ?thesis by (intro exI [of _ 0]) simp
qed


lemma rebuild_and_load:
  assumes "selected_vcp s = Some vcp"
    and "vcp \<in> set [''VCP 12'', ''VCP 35'', ''VCP 212'', ''VCP 215'']"
    and "mrle_var s \<in> set [''None'', ''MRLE 2'', ''MRLE 3'', ''MRLE 4'']"
  shows "\<exists>q k. list_all step_ok q \<and> k < length q \<and>
     and_then (build_pattern_sequence s) advance_pattern_step =
       Done (s\<lparr>pattern_sequence := q, pattern_step_index := k, sweep_progress := 0,
         angle := 90,
         sweep_speed := Some (step_speed (q ! k) * of_int (speed_multiplier s)),
         cone_angle_width := Some (step_cone_width (q ! k)),
         current_label := Some (step_label (q ! k)),
         sweep_radius := step_radius (q ! k),
         z_label := step_label (q ! k),
         angle_label := step_angle (q ! k)\<rparr>)"
proof -
  from build_from_menus [OF assms] obtain q
    where q: "q \<noteq> []" "list_all step_ok q"
      and b: "build_pattern_sequence s = Done (s\<lparr>pattern_sequence := q\<rparr>)"
    by blast
  from advance_pattern_step_any [of "s\<lparr>pattern_sequence := q\<rparr>"] q
  obtain k where "k < length q"
    and "advance_pattern_step (s\<lparr>pattern_sequence := q\<rparr>) =
       Done (s\<lparr>pattern_sequence := q, pattern_step_index := k, sweep_progress := 0,
         angle := 90,
         sweep_speed := Some (step_speed (q ! k) * of_int (speed_multiplier s)),
         cone_angle_width := Some (step_cone_width (q ! k)),
         current_label := Some (step_label (q ! k)),
         sweep_radius := step_radius (q ! k),
         z_label := step_label (q ! k),
         angle_label := step_angle (q ! k)\<rparr>)"
    by auto
  then show ?thesis using q(2) b by auto
qed

lemma set_vcp_inv:
  assumes "0 \<le> speed_multiplier s"
    and "name \<in> set [''VCP 12'', ''VCP 35'', ''VCP 212'', ''VCP 215'']"
  shows "returns (set_vcp name s) \<and> sweep_inv (state_of (set_vcp name s))"
proof -
  let ?s3 = "(if name \<in> set [''VCP 212'', ''VCP 12'']
      then s\<lparr>running := False, vcp_selected := True,
                 toggle_button_text := ''Run'', toggle_button_enabled := True,
                 vcp_title_label := name, selected_vcp := Some name,
                 sails_var := ''None'', mrle_var := ''None'', mrle_dropdown_enabled := True\<rparr>
      else s\<lparr>running := False, vcp_selected := True,
                 toggle_button_text := ''Run'', toggle_button_enabled := True,
                 vcp_title_label := name, selected_vcp := Some name,
                 sails_var := ''None'', mrle_var := ''None'',
                 mrle_dropdown_enabled := False, mrle_var := ''None''\<rparr>)
     \<lparr>sails_menu := (if name = ''VCP 35'' then [''None'', ''SAILS 1'']
                      else [''None'', ''SAILS 1'', ''SAILS 2'', ''SAILS 3'']),
       sails_var := ''None'', sails_dropdown_enabled := True\<rparr>"
  have s3: "selected_vcp ?s3 = Some name" "mrle_var ?s3 = ''None''"
    by simp_all
  then have m3: "mrle_var ?s3 \<in> set [''None'', ''MRLE 2'', ''MRLE 3'', ''MRLE 4'']"
    by simp
  from rebuild_and_load [OF s3(1) assms(2) m3] obtain s5
    where first: "and_then (build_pattern_sequence ?s3) advance_pattern_step = Done s5"
      and s5: "selected_vcp s5 = Some name" "mrle_var s5 = ''None''"
        "speed_multiplier s5 = speed_multiplier s" "vcp_selected s5" "\<not> running s5"
    by (auto split: if_splits)
  let ?s6 = "if name \<in> set [''VCP 212'', ''VCP 12'']
      then s5\<lparr>mrle_dropdown_enabled := True\<rparr>
      else s5\<lparr>mrle_dropdown_enabled := False, mrle_var := ''None''\<rparr>"
  have s6: "selected_vcp ?s6 = Some name" "mrle_var ?s6 = ''None''"
    "speed_multiplier ?s6 = speed_multiplier s" "vcp_selected ?s6" "\<not> running ?s6"
    using s5 by simp_all
  then have m6: "mrle_var ?s6 \<in> set [''None'', ''MRLE 2'', ''MRLE 3'', ''MRLE 4'']"
    by simp
  from rebuild_and_load [OF s6(1) assms(2) m6] obtain s7
    where second: "and_then (build_pattern_sequence ?s6) advance_pattern_step = Done s7"
      and s7: "sweep_inv s7"
    using s6 assms by (fastforce simp: sweep_inv_def)
  have "set_vcp name s =
      and_then (and_then (build_pattern_sequence ?s3) advance_pattern_step)
        (\<lambda>s5. and_then (build_pattern_sequence
                  (if name \<in> set [''VCP 212'', ''VCP 12'']
                   then s5\<lparr>mrle_dropdown_enabled := True\<rparr>
                   else s5\<lparr>mrle_dropdown_enabled := False, mrle_var := ''None''\<rparr>))
                advance_pattern_step)"
    by (cases "build_pattern_sequence ?s3") (simp_all add: set_vcp_def Let_def)
  then show ?thesis using first second s7 by simp
qed


lemma sails_selected_inv:
  assumes "sweep_inv s"
  shows "returns (sails_selected (s\<lparr>sails_var := choice\<rparr>))
    \<and> sweep_inv (state_of (sails_selected (s\<lparr>sails_var := choice\<rparr>)))"
proof (cases "vcp_selected s")
  case False
  then show ?thesis using assms
    by (simp add: sails_selected_def sweep_inv_def)
next
  case True
  with assms obtain vcp where vcp: "selected_vcp s = Some vcp"
    "vcp \<in> set [''VCP 12'', ''VCP 35'', ''VCP 212'', ''VCP 215'']"
    by (auto simp: sweep_inv_def)
  from assms have menu: "mrle_var s \<in> set [''None'', ''MRLE 2'', ''MRLE 3'', ''MRLE 4'']"
    and mult: "0 \<le> speed_multiplier s"
    by (simp_all add: sweep_inv_def)
  let ?s1 = "if choice \<noteq> ''None''
      then s\<lparr>sails_var := choice, mrle_var := ''None'', mrle_dropdown_enabled := False\<rparr>
      else if vcp \<in> set [''VCP 212'', ''VCP 12'']
        then s\<lparr>sails_var := choice, mrle_dropdown_enabled := True\<rparr>
        else s\<lparr>sails_var := choice\<rparr>"
  let ?s2 = "?s1\<lparr>running := False, pattern_step_index := 0, angle := 90\<rparr>"
  have s2: "selected_vcp ?s2 = Some vcp"
    "mrle_var ?s2 \<in> set [''None'', ''MRLE 2'', ''MRLE 3'', ''MRLE 4'']"
    "speed_multiplier ?s2 = speed_multiplier s" "vcp_selected ?s2" "\<not> running ?s2"
    using vcp menu True by simp_all
  from rebuild_and_load [OF s2(1) vcp(2) s2(2)] obtain s'
    where r: "and_then (build_pattern_sequence ?s2) advance_pattern_step = Done s'"
      and inv: "sweep_inv s'"
    using s2 mult vcp(2) by (fastforce simp: sweep_inv_def)
  have "sails_selected (s\<lparr>sails_var := choice\<rparr>) =
      and_then (build_pattern_sequence ?s2) advance_pattern_step"
    using True vcp(1) by (simp add: sails_selected_def)
  then show ?thesis using r inv by simp
qed

lemma mrle_selected_inv:
  assumes "sweep_inv s"
    and "choice \<in> set [''None'', ''MRLE 2'', ''MRLE 3'', ''MRLE 4'']"
  shows "returns (mrle_selected (s\<lparr>mrle_var := choice\<rparr>))
    \<and> sweep_inv (state_of (mrle_selected (s\<lparr>mrle_var := choice\<rparr>)))"
proof (cases "vcp_selected s")
  case False
  then show ?thesis using assms(1)
    by (simp add: mrle_selected_def sweep_inv_def)
next
  case True
  with assms obtain vcp where vcp: "selected_vcp s = Some vcp"
    "vcp \<in> set [''VCP 12'', ''VCP 35'', ''VCP 212'', ''VCP 215'']"
    by (auto simp: sweep_inv_def)
  from assms have mult: "0 \<le> speed_multiplier s"
    by (simp add: sweep_inv_def)
  let ?s1 = "if choice \<noteq> ''None''
      then s\<lparr>mrle_var := choice, sails_var := ''None'', sails_dropdown_enabled := False\<rparr>
      else s\<lparr>mrle_var := choice, sails_dropdown_enabled := True\<rparr>"
  let ?s2 = "?s1\<lparr>running := False, pattern_step_index := 0, angle := 90\<rparr>"
  have s2: "selected_vcp ?s2 = Some vcp"
    "mrle_var ?s2 \<in> set [''None'', ''MRLE 2'', ''MRLE 3'', ''MRLE 4'']"
    "speed_multiplier ?s2 = speed_multiplier s" "vcp_selected ?s2" "\<not> running ?s2"
    using vcp assms(2) True by auto
  from rebuild_and_load [OF s2(1) vcp(2) s2(2)] obtain s'
    where r: "and_then (build_pattern_sequence ?s2) advance_pattern_step = Done s'"
      and inv: "sweep_inv s'"
    using s2 mult vcp(2) by (fastforce simp: sweep_inv_def)
  have "mrle_selected (s\<lparr>mrle_var := choice\<rparr>) =
      and_then (build_pattern_sequence ?s2) advance_pattern_step"
    using True by (simp add: mrle_selected_def Let_def)
  then show ?thesis using r inv by simp
qed

lemma speed_multiply_inv:
  assumes "sweep_inv s"
  shows "returns (speed_multiply s) \<and> sweep_inv (state_of (speed_multiply s))"
proof (cases "vcp_selected s")
  case False
  then show ?thesis using assms
    by (simp add: speed_multiply_def sweep_inv_def Let_def)
next
  case True
  let ?s3 = "s\<lparr>fast_mode := fast_mode s mod 4 + 1,
               speed_multiplier := 2 ^ nat (fast_mode s mod 4),
               fast_button := 2 ^ nat (fast_mode s mod 4)\<rparr>"
  from True assms have len: "pattern_step_index ?s3 < length (pattern_sequence ?s3)"
    and ok: "list_all step_ok (pattern_sequence ?s3)"
    by (simp_all add: sweep_inv_def)
  then have ne: "pattern_sequence s \<noteq> []" by auto
  have "step_ok (pattern_sequence ?s3 ! pattern_step_index ?s3)"
    using len ok by (simp add: list_all_length)
  from advance_pattern_step_loads [OF len this]
  have "advance_pattern_step ?s3 =
     Done (?s3\<lparr>sweep_progress := 0, angle := 90,
       sweep_speed := Some (step_speed (pattern_sequence s ! pattern_step_index s)
                              * of_int (speed_multiplier ?s3)),
       cone_angle_width := Some (step_cone_width (pattern_sequence s ! pattern_step_index s)),
       current_label := Some (step_label (pattern_sequence s ! pattern_step_index s)),
       sweep_radius := step_radius (pattern_sequence s ! pattern_step_index s),
       z_label := step_label (pattern_sequence s ! pattern_step_index s),
       angle_label := step_angle (pattern_sequence s ! pattern_step_index s)\<rparr>)"
    by simp
  moreover have "speed_multiply s = advance_pattern_step ?s3"
    using ne by (simp add: speed_multiply_def Let_def)
  ultimately show ?thesis using assms True
    by (simp add: sweep_inv_def step_loaded_def)
qed

lemma animate_inv:
  assumes "sweep_inv s"
  shows "returns (animate s) \<and> sweep_inv (state_of (animate s))"
proof (cases "running s")
  case False
  then show ?thesis using assms by (simp add: animate_def)
next
  case True
  with assms have sel: "vcp_selected s"
    by (auto simp: sweep_inv_def split: if_splits)
  with assms True have len: "pattern_step_index s < length (pattern_sequence s)"
    and oks: "list_all step_ok (pattern_sequence s)"
    and loaded: "step_loaded (pattern_sequence s ! pattern_step_index s) s"
    by (simp_all add: sweep_inv_def)
  let ?v = "step_speed (pattern_sequence s ! pattern_step_index s) * of_int (speed_multiplier s)"
  have ok: "step_ok (pattern_sequence s ! pattern_step_index s)"
    using len oks by (simp add: list_all_length)
  have v: "sweep_speed s = Some ?v"
    using loaded by (simp add: step_loaded_def)
  consider (inside) "\<not> angle s - \<bar>?v\<bar> * 5 \<le> - 270"
    | (final) "angle s - \<bar>?v\<bar> * 5 \<le> - 270"
        "length (pattern_sequence s) \<le> Suc (pattern_step_index s)"
    | (further) "angle s - \<bar>?v\<bar> * 5 \<le> - 270"
        "Suc (pattern_step_index s) < length (pattern_sequence s)"
    by linarith
  then show ?thesis
  proof cases
    case inside
    from animate_inside [OF True len ok loaded v inside]
    show ?thesis using assms sel True by (auto simp: sweep_inv_def step_loaded_def)
  next
    case final
    from animate_last_step [OF True len ok loaded v final]
    show ?thesis using assms sel len by (auto simp: sweep_inv_def)
  next
    case further
    then have "step_ok (pattern_sequence s ! Suc (pattern_step_index s))"
      using oks by (simp add: list_all_length)
    from animate_next_step [OF True len ok loaded v further this]
    show ?thesis using assms sel True further(2)
      by (auto simp: sweep_inv_def step_loaded_def)
  qed
qed

lemma sweep_inv_after_pending:
  "sweep_inv (s\<lparr>after_pending := n\<rparr>) = sweep_inv s"
  by (simp add: sweep_inv_def step_loaded_def)

lemma fire_timer_inv:
  assumes "sweep_inv s"
  shows "returns (fire_timer s) \<and> sweep_inv (state_of (fire_timer s))"
  using assms animate_inv [of "s\<lparr>after_pending := after_pending s - 1\<rparr>"]
  by (simp add: fire_timer_def sweep_inv_after_pending)

lemma toggle_animation_inv:
  assumes "sweep_inv s"
  shows "returns (toggle_animation s) \<and> sweep_inv (state_of (toggle_animation s))"
proof -
  consider (idle) "\<not> vcp_selected s" | (stop) "vcp_selected s" "running s"
    | (go) "vcp_selected s" "\<not> running s"
    by blast
  then show ?thesis
  proof cases
    case idle
    then show ?thesis using assms by (simp add: toggle_animation_def sweep_inv_def)
  next
    case stop
    then show ?thesis using assms by (simp add: toggle_animation_def sweep_inv_def)
  next
    case go
    let ?s0 = "s\<lparr>pattern_step_index := 0\<rparr>"
    from go assms have ne: "pattern_sequence s \<noteq> []"
      and oks: "list_all step_ok (pattern_sequence s)"
      by (auto simp: sweep_inv_def)
    then have zero: "pattern_step_index ?s0 < length (pattern_sequence ?s0)"
      by simp
    then have "step_ok (pattern_sequence ?s0 ! pattern_step_index ?s0)"
      using oks by (simp add: list_all_length)
    from advance_pattern_step_loads [OF zero this] obtain s1
      where a: "advance_pattern_step ?s0 = Done s1"
        and "sweep_inv (s1\<lparr>angle := 90, running := True, toggle_button_text := ''Stop''\<rparr>)"
      using assms go zero by (simp add: sweep_inv_def step_loaded_def)
    from animate_inv [OF this(2)] a go
    show ?thesis by (simp add: toggle_animation_def)
  qed
qed

lemma init_app_inv: "sweep_inv init_app"
  by (simp add: sweep_inv_def init_app_def)

lemma reachable_inv: "reachable s \<Longrightarrow> sweep_inv s"
proof (induction rule: reachable.induct)
  case start
  show ?case by (rule init_app_inv)
next
  case (vcp_button s name)
  then have "0 \<le> speed_multiplier s"
    by (simp add: sweep_inv_def)
  from set_vcp_inv [OF this vcp_button.hyps(2)]
  show ?case by simp
next
  case (sails_menu_entry s choice)
  then show ?case using sails_selected_inv [of s choice] by (simp add: set_sails_def)
next
  case (mrle_menu_entry s choice)
  then show ?case using mrle_selected_inv [of s choice] by simp
next
  case (speed_button s)
  then show ?case using speed_multiply_inv by simp
next
  case (run_button s)
  then show ?case using toggle_animation_inv by simp
next
  case (timer s)
  then show ?case using fire_timer_inv by simp
qed

lemma reachable_running_loaded:
  assumes "reachable s" and "running s"
  shows "pattern_step_index s < length (pattern_sequence s)"
    and "list_all step_ok (pattern_sequence s)"
    and "step_ok (pattern_sequence s ! pattern_step_index s)"
    and "step_loaded (pattern_sequence s ! pattern_step_index s) s"
    and "0 \<le> speed_multiplier s"
proof -
  from reachable_inv [OF assms(1)] assms(2)
  show len: "pattern_step_index s < length (pattern_sequence s)"
    and oks: "list_all step_ok (pattern_sequence s)"
    and "step_loaded (pattern_sequence s ! pattern_step_index s) s"
    and "0 \<le> speed_multiplier s"
    by (auto simp: sweep_inv_def split: if_splits)
  then show "step_ok (pattern_sequence s ! pattern_step_index s)"
    by (simp add: list_all_length)
qed


lemma reachable_selected:
  assumes "reachable s" and "vcp_selected s"
  shows "pattern_step_index s < length (pattern_sequence s)"
    and "step_ok (pattern_sequence s ! pattern_step_index s)"
proof -
  from reachable_inv [OF assms(1)] assms(2)
  show len: "pattern_step_index s < length (pattern_sequence s)"
    by (simp add: sweep_inv_def)
  from reachable_inv [OF assms(1)] assms(2)
  have "list_all step_ok (pattern_sequence s)"
    by (simp add: sweep_inv_def)
  then show "step_ok (pattern_sequence s ! pattern_step_index s)"
    using len by (simp add: list_all_length)
qed

lemma reachable_handlers_return:
  assumes "reachable s"
  shows "returns (toggle_animation s)" and "returns (speed_multiply s)"
    and "returns (fire_timer s)" and "returns (animate s)"
  using reachable_inv [OF assms] toggle_animation_inv speed_multiply_inv fire_timer_inv
    animate_inv
  by blast+

end
